theory Spec2Isabelle
  imports Main "HOL-Library.Word" "HOL-Library.Multiset"
begin

section \<open>Data model\<close>

text \<open>
  Modelled from the spec: the wire message \<^verbatim>\<open>pb.Message\<close>, whose generated
  declaration is not among the sources. It is the WorkUnit of the data model: origin,
  benchId, traceId and depth. The field names and \<^verbatim>\<open>int32\<close> for the depth are the
  ones \<^verbatim>\<open>service.go\<close> uses (\<^verbatim>\<open>depth int32\<close> in \<^verbatim>\<open>callService\<close>). \<^verbatim>\<open>int32\<close> is a
  32-bit word, so \<open>+\<close> wraps as Go's does; \<open>sint\<close> reads it as a signed number.
\<close>

record Message =
  From :: string
  BenchId :: string
  TraceId :: string
  Depth :: "32 word"

text \<open>
  \<^verbatim>\<open>*grpc.ClientConn\<close>: a channel handle, identified by a number (the pointer).
\<close>

type_synonym conn = nat

text \<open>\<^verbatim>\<open>context.Context\<close>: only its deadline (absolute, in nanoseconds) is modelled.\<close>

record Context =
  deadline :: "int option"

text \<open>\<^verbatim>\<open>tracing.TraceLog\<close>, field by field.\<close>

record TraceLog =
  log_Topology :: string
  log_BenchID :: string
  log_CNI :: string
  log_Operation :: string
  log_Timestamp :: int
  log_TraceID :: string
  log_ServiceName :: string
  log_RelatedService :: string

text \<open>\<^verbatim>\<open>tracing.Tracer\<close> without its logger handle.\<close>

record Tracer =
  tracer_topology :: string
  tracer_cni :: string
  tracer_serviceName :: string

text \<open>
  \<^verbatim>\<open>service.Service\<close>. The two mutex fields have no value of their own: each section
  they guard is one atomic step of the model. \<open>otelTracer\<close> says whether the
  OpenTelemetry tracer is non-nil. \<^verbatim>\<open>time.Duration\<close> is a number of nanoseconds.
\<close>

record Service =
  name :: string
  outServices :: "string list"
  processingDelay :: int
  rps :: int
  connPool :: "string \<rightharpoonup> conn"
  tracer :: Tracer
  otelTracer :: bool
  topology :: string
  cni :: string

text \<open>
  \<^verbatim>\<open>service.ServiceConfig\<close> without its logger handle; \<open>TracerProvider\<close> says whether
  the provider is non-nil.
\<close>

record ServiceConfig =
  Name :: string
  OutServices :: "string list"
  ProcessingDelay :: int
  RPS :: int
  Topology :: string
  CNI :: string
  TracerProvider :: bool

text \<open>
  Everything the code does to the outside is an event of a history, oldest first: a
  trace record handed to the logger, a sleep, the start and end of a span, a call of
  \<^verbatim>\<open>grpc.NewClient\<close> with its target and result, a remote \<^verbatim>\<open>Process\<close> call with the
  peer it is for, the channel, the request and the result, a line given to
  \<^verbatim>\<open>log.Println\<close>, the two \<^verbatim>\<open>slog\<close> messages of \<^verbatim>\<open>Preconnect\<close>, and a call of the
  JSON encoder with the map it is given and its result. A span is recorded by its name,
  without its attributes, and only when the OpenTelemetry tracer is there.
\<close>

datatype event =
    Trace TraceLog
  | Sleep int
  | SpanStart string
  | SpanEnd string
  | NewClient string "string + conn"
  | Call string conn Message "string + Message option"
  | LogLine string
  | SlogError string string
  | SlogInfo string
  | Encode "(string \<times> (string + int)) list" "string + string"

text \<open>
  The environment: the clock, channel construction, the remote call and the JSON
  encoder. Each answer may depend on the whole history so far, so two attempts at the
  same target can end differently. An error is its text.
\<close>

record world =
  timeNow :: "event list \<Rightarrow> int"
  grpcNewClient :: "event list \<Rightarrow> string \<Rightarrow> string + conn"
  clientProcess :: "event list \<Rightarrow> Context \<Rightarrow> conn \<Rightarrow> Message \<Rightarrow> string + Message option"
  jsonEncode :: "event list \<Rightarrow> (string \<times> (string + int)) list \<Rightarrow> string + string"

type_synonym state = "Service \<times> event list"

section \<open>The trace emitter\<close>

definition NewTracer :: "string \<Rightarrow> string \<Rightarrow> string \<Rightarrow> Tracer" where
  "NewTracer topo c serviceName =
     \<lparr>tracer_topology = topo, tracer_cni = c, tracer_serviceName = serviceName\<rparr>"

definition LogTrace ::
  "world \<Rightarrow> Tracer \<Rightarrow> string \<Rightarrow> string \<Rightarrow> string \<Rightarrow> string \<Rightarrow> event list \<Rightarrow> event list" where
  "LogTrace w t operation benchID traceID relatedService h =
     h @ [Trace \<lparr>log_Topology = tracer_topology t, log_BenchID = benchID,
                 log_CNI = tracer_cni t, log_Operation = operation,
                 log_Timestamp = timeNow w h, log_TraceID = traceID,
                 log_ServiceName = tracer_serviceName t,
                 log_RelatedService = relatedService\<rparr>]"

definition spanStart :: "Service \<Rightarrow> string \<Rightarrow> event list \<Rightarrow> event list" where
  "spanStart s n h = (if otelTracer s then h @ [SpanStart n] else h)"

definition spanEnd :: "Service \<Rightarrow> string \<Rightarrow> event list \<Rightarrow> event list" where
  "spanEnd s n h = (if otelTracer s then h @ [SpanEnd n] else h)"

section \<open>The connection registry\<close>

definition NewService :: "ServiceConfig \<Rightarrow> Service" where
  "NewService config =
     \<lparr>name = Name config,
      outServices = OutServices config,
      processingDelay = ProcessingDelay config,
      rps = RPS config,
      connPool = Map.empty,
      tracer = NewTracer (Topology config) (CNI config) (Name config),
      otelTracer = TracerProvider config,
      topology = Topology config,
      cni = CNI config\<rparr>"

text \<open>
  \<^verbatim>\<open>getConnection\<close> has two critical sections. The first reads the pool under the
  read lock.
\<close>

definition getConnection_rlocked :: "string \<Rightarrow> Service \<Rightarrow> conn option" where
  "getConnection_rlocked serviceName s = connPool s serviceName"

text \<open>
  The second, under the write lock, looks again, and only on a second miss calls
  \<^verbatim>\<open>grpc.NewClient\<close> on \<^verbatim>\<open>serviceName:50051\<close>. A failure leaves the pool as it is; a
  success stores the channel.
\<close>

definition getConnection_locked :: "world \<Rightarrow> string \<Rightarrow> state \<Rightarrow> (string + conn) \<times> state" where
  "getConnection_locked w serviceName st =
     (case st of (s, h) \<Rightarrow>
        (case connPool s serviceName of
           Some c \<Rightarrow> (Inr c, s, h)
         | None \<Rightarrow>
             (let target = serviceName @ '':50051'';
                  r = grpcNewClient w h target;
                  h' = h @ [NewClient target r]
              in case r of
                   Inl err \<Rightarrow>
                     (Inl (''failed to connect to '' @ serviceName @ '': '' @ err), s, h')
                 | Inr c \<Rightarrow>
                     (Inr c, s\<lparr>connPool := (connPool s)(serviceName \<mapsto> c)\<rparr>, h'))))"

definition getConnection :: "world \<Rightarrow> string \<Rightarrow> state \<Rightarrow> (string + conn) \<times> state" where
  "getConnection w serviceName st =
     (case getConnection_rlocked serviceName (fst st) of
        Some c \<Rightarrow> (Inr c, st)
      | None \<Rightarrow> getConnection_locked w serviceName st)"

fun Preconnect_loop :: "world \<Rightarrow> string list \<Rightarrow> state \<Rightarrow> state" where
  "Preconnect_loop w [] st = st"
| "Preconnect_loop w (svc # rest) st =
     (case getConnection w svc st of
        (Inl err, s', h') \<Rightarrow>
          Preconnect_loop w rest (s', h' @ [SlogError svc err])
      | (Inr c, s', h') \<Rightarrow>
          Preconnect_loop w rest (s', h' @ [SlogInfo svc]))"

definition Preconnect :: "world \<Rightarrow> state \<Rightarrow> state" where
  "Preconnect w st = Preconnect_loop w (outServices (fst st)) st"

text \<open>
  Any concurrent use of the registry is a sequence of these two sections, in some
  order. A read-locked section that finds the entry returns it; one that misses returns
  nothing yet (its caller goes on to a write-locked section). A write-locked section
  always returns.
\<close>

datatype critical = RLocked string | Locked string

fun run_sections ::
  "world \<Rightarrow> critical list \<Rightarrow> state \<Rightarrow> (string \<times> (string + conn)) list \<times> state" where
  "run_sections w [] st = ([], st)"
| "run_sections w (RLocked n # rest) st =
     (case run_sections w rest st of
        (rs, st') \<Rightarrow>
          ((case getConnection_rlocked n (fst st) of
              Some c \<Rightarrow> [(n, Inr c)]
            | None \<Rightarrow> []) @ rs, st'))"
| "run_sections w (Locked n # rest) st =
     (case getConnection_locked w n st of
        (r, st1) \<Rightarrow>
          (case run_sections w rest st1 of
             (rs, st') \<Rightarrow> ((n, r) # rs, st')))"

text \<open>
  Observers of a history. \<open>new_events h h'\<close> is what was added to \<open>h\<close> to reach
  \<open>h'\<close>; \<open>constructed n evs\<close> lists the channels that \<open>evs\<close> constructed for the
  peer \<open>n\<close>; \<open>dialled evs\<close> lists the targets on which \<^verbatim>\<open>grpc.NewClient\<close> was
  called.
\<close>

definition new_events :: "event list \<Rightarrow> event list \<Rightarrow> event list" where
  "new_events h h' = drop (length h) h'"

fun constructed_by :: "string \<Rightarrow> event \<Rightarrow> conn list" where
  "constructed_by n (NewClient target (Inr c)) =
     (if target = n @ '':50051'' then [c] else [])"
| "constructed_by n e = []"

definition constructed :: "string \<Rightarrow> event list \<Rightarrow> conn list" where
  "constructed n evs = concat (map (constructed_by n) evs)"

fun dialled_by :: "event \<Rightarrow> string list" where
  "dialled_by (NewClient target r) = [target]"
| "dialled_by e = []"

definition dialled :: "event list \<Rightarrow> string list" where
  "dialled evs = concat (map dialled_by evs)"

section \<open>The call-tree dispatcher\<close>

definition callService ::
  "world \<Rightarrow> Context \<Rightarrow> string \<Rightarrow> string \<Rightarrow> string \<Rightarrow> 32 word \<Rightarrow> state
     \<Rightarrow> (string + Message option) \<times> state" where
  "callService w ctx serviceName benchID traceID depth st =
     (case st of (s, h) \<Rightarrow>
        (case getConnection w serviceName (s, spanStart s ''call_service'' h) of
           (Inl err, s', h') \<Rightarrow> (Inl err, s', spanEnd s' ''call_service'' h')
         | (Inr c, s', h') \<Rightarrow>
             (let req = \<lparr>From = name s', BenchId = benchID, TraceId = traceID,
                         Depth = depth\<rparr>;
                  r = clientProcess w h' ctx c req
              in (r, s', spanEnd s' ''call_service'' (h' @ [Call serviceName c req r])))))"

text \<open>
  The body of one fan-out goroutine. It sends to \<open>errors\<close> on an error, to
  \<open>responses\<close> on a non-nil reply, and to neither on a nil reply without error. Both
  channels have room for one message per peer, so no send blocks.
\<close>

type_synonym fanout = "Message list \<times> string list \<times> Service \<times> event list"

definition fanOut_task ::
  "world \<Rightarrow> Context \<Rightarrow> Message \<Rightarrow> 32 word \<Rightarrow> string \<Rightarrow> fanout \<Rightarrow> fanout" where
  "fanOut_task w ctx req thisDepth serviceName acc =
     (case acc of (responses, errors, s, h) \<Rightarrow>
        (case callService w ctx serviceName (BenchId req) (TraceId req) thisDepth
                (s, LogTrace w (tracer s) ''req_start'' (BenchId req) (TraceId req)
                      serviceName h) of
           (Inl err, s', h') \<Rightarrow> (responses, errors @ [err], s', h')
         | (Inr None, s', h') \<Rightarrow> (responses, errors, s', h')
         | (Inr (Some resp), s', h') \<Rightarrow>
             (responses @ [resp], errors, s',
              LogTrace w (tracer s') ''req_resp'' (BenchId resp) (TraceId resp)
                (From resp) h')))"

text \<open>
  Go fixes no order among the goroutines; here they run one after the other, in the
  order of the peer list. The message that \<^verbatim>\<open>Process\<close> returns depends on no order,
  and what is stated below about the events of a fan-out is stated of multisets, which
  no order of the tasks, of their trace records or of their sends changes.
\<close>

fun fanOut ::
  "world \<Rightarrow> Context \<Rightarrow> Message \<Rightarrow> 32 word \<Rightarrow> string list \<Rightarrow> fanout \<Rightarrow> fanout" where
  "fanOut w ctx req thisDepth [] acc = acc"
| "fanOut w ctx req thisDepth (outService # rest) acc =
     fanOut w ctx req thisDepth rest (fanOut_task w ctx req thisDepth outService acc)"

definition Process_delay :: "Service \<Rightarrow> event list \<Rightarrow> event list" where
  "Process_delay s h =
     (if processingDelay s > 0 \<and> otelTracer s
      then h @ [SpanStart ''processing_delay'', Sleep (processingDelay s),
                SpanEnd ''processing_delay'']
      else h @ [Sleep (processingDelay s)])"

definition Process ::
  "world \<Rightarrow> Context \<Rightarrow> Message \<Rightarrow> state \<Rightarrow> (string + Message) \<times> state" where
  "Process w ctx req st =
     (case st of (s, h) \<Rightarrow>
        (let h2 = Process_delay s
                    (LogTrace w (tracer s) ''process_start'' (BenchId req) (TraceId req)
                       (From req) (spanStart s ''Process'' h));
             thisDepth = Depth req + 1
         in if length (outServices s) = 0 then
              (Inr \<lparr>From = name s, BenchId = BenchId req, TraceId = TraceId req,
                    Depth = thisDepth\<rparr>,
               s,
               spanEnd s ''Process''
                 (LogTrace w (tracer s) ''process_end'' (BenchId req) (TraceId req)
                    (From req) h2))
            else
              (case fanOut w ctx req thisDepth (outServices s) ([], [], s, h2) of
                 (responses, errors, s', h3) \<Rightarrow>
                   (Inr \<lparr>From = name s', BenchId = BenchId req, TraceId = TraceId req,
                         Depth = 0\<rparr>,
                    s',
                    spanEnd s' ''Process''
                      (LogTrace w (tracer s') ''process_end'' (BenchId req) (TraceId req)
                         (From req) (h3 @ map LogLine errors))))))"

text \<open>
  More observers: the requests of the remote calls, their non-nil replies, the lines
  given to \<^verbatim>\<open>log.Println\<close>, the trace records of one operation, and the error texts
  of the failed constructions and failed remote calls (the first as \<^verbatim>\<open>getConnection\<close>
  words them: the peer is the target without its six-byte port suffix).
\<close>

fun request_of :: "event \<Rightarrow> Message list" where
  "request_of (Call peer c m r) = [m]"
| "request_of e = []"

definition requests :: "event list \<Rightarrow> Message list" where
  "requests evs = concat (map request_of evs)"

fun reply_of :: "event \<Rightarrow> Message list" where
  "reply_of (Call peer c m (Inr (Some resp))) = [resp]"
| "reply_of e = []"

definition replies :: "event list \<Rightarrow> Message list" where
  "replies evs = concat (map reply_of evs)"

fun line_of :: "event \<Rightarrow> string list" where
  "line_of (LogLine l) = [l]"
| "line_of e = []"

definition logged :: "event list \<Rightarrow> string list" where
  "logged evs = concat (map line_of evs)"

fun trace_of :: "string \<Rightarrow> event \<Rightarrow> TraceLog list" where
  "trace_of operation (Trace t) = (if log_Operation t = operation then [t] else [])"
| "trace_of operation e = []"

definition traced :: "string \<Rightarrow> event list \<Rightarrow> TraceLog list" where
  "traced operation evs = concat (map (trace_of operation) evs)"

fun failure_of :: "event \<Rightarrow> string list" where
  "failure_of (NewClient target (Inl err)) =
     [''failed to connect to '' @ take (length target - 6) target @ '': '' @ err]"
| "failure_of (Call peer c m (Inl err)) = [err]"
| "failure_of e = []"

definition failures :: "event list \<Rightarrow> string list" where
  "failures evs = concat (map failure_of evs)"

text \<open>
  The peers that the events \<open>evs\<close> tried to reach: one entry for every remote call,
  and one for every failed construction (the target without its port suffix). A task of
  the fan-out ends in exactly one of the two.
\<close>

fun attempt_of :: "event \<Rightarrow> string list" where
  "attempt_of (NewClient target (Inl err)) = [take (length target - 6) target]"
| "attempt_of (Call peer c m r) = [peer]"
| "attempt_of e = []"

definition attempted :: "event list \<Rightarrow> string list" where
  "attempted evs = concat (map attempt_of evs)"

text \<open>
  The requests that belong to the call tree of \<open>root\<close>: the root itself, and every
  request that some node, in some state and environment, issues downstream while it
  processes a request of the tree.
\<close>

inductive in_call_tree :: "Message \<Rightarrow> Message \<Rightarrow> bool" for root :: Message where
  at_root: "in_call_tree root root"
| at_hop: "in_call_tree root req \<Longrightarrow>
           m \<in> set (requests (new_events h (snd (snd (Process w ctx req (s, h)))))) \<Longrightarrow>
           in_call_tree root m"

section \<open>The ingress adapter\<close>

text \<open>\<^verbatim>\<open>fmt.Sprintf("%d", n)\<close>: the decimal digits, with a minus sign below zero.\<close>

fun decimal :: "nat \<Rightarrow> string" where
  "decimal n =
     (if n < 10 then [char_of (48 + n)]
      else decimal (n div 10) @ [char_of (48 + n mod 10)])"

definition Sprintf_d :: "int \<Rightarrow> string" where
  "Sprintf_d i = (if i < 0 then CHR ''-'' # decimal (nat (- i)) else decimal (nat i))"

text \<open>The part of the \<^verbatim>\<open>fasthttp\<close> response that the handler sets.\<close>

record Response =
  statusCode :: nat
  contentType :: string
  body :: string

definition StatusOK :: nat where "StatusOK = 200"
definition StatusMethodNotAllowed :: nat where "StatusMethodNotAllowed = 405"
definition StatusInternalServerError :: nat where "StatusInternalServerError = 500"

text \<open>\<^verbatim>\<open>ctx.Error(msg, code)\<close> replaces the response by a plain-text one.\<close>

definition ctx_Error :: "string \<Rightarrow> nat \<Rightarrow> Response" where
  "ctx_Error msg code =
     \<lparr>statusCode = code, contentType = ''text/plain; charset=utf-8'', body = msg\<rparr>"

text \<open>
  \<^verbatim>\<open>handle_http\<close>, from the request's method and body. The request context has no
  deadline of its own; \<^verbatim>\<open>context.WithTimeout\<close> sets one three seconds after the
  present instant. Two readings of the clock with no event between them give the same
  instant. The deferred \<^verbatim>\<open>cancel\<close> only releases the timer and has no event. The
  response map goes to the encoder as a list of its five entries, and the call of the
  encoder is an event.
\<close>

definition handle_http :: "world \<Rightarrow> string \<Rightarrow> string \<Rightarrow> state \<Rightarrow> Response \<times> state" where
  "handle_http w smethod postBody st =
     (case st of (s, h) \<Rightarrow>
        (let start = timeNow w h;
             traceId = Sprintf_d start
         in case (if smethod = ''GET'' then Some ''default''
                  else if smethod = ''POST'' then Some postBody
                  else None) of
              None \<Rightarrow> (ctx_Error ''Unsupported method'' StatusMethodNotAllowed, s, h)
            | Some benchId \<Rightarrow>
              (let reqCtx = \<lparr>deadline = Some (timeNow w h + 3 * 1000000000)\<rparr>;
                   h1 = LogTrace w (tracer s) ''http_start'' benchId traceId []
                          (spanStart s ''http_request'' h);
                   req = \<lparr>From = name s, BenchId = benchId, TraceId = traceId,
                           Depth = 0\<rparr>
               in case Process w reqCtx req (s, h1) of
                    (Inl err, s', h2) \<Rightarrow>
                      (ctx_Error err StatusInternalServerError, s',
                       spanEnd s' ''http_request'' h2)
                  | (Inr reply, s', h2) \<Rightarrow>
                      (let h3 = LogTrace w (tracer s') ''http_end'' benchId traceId [] h2;
                           response = [(''traceId'', Inl traceId),
                                       (''serviceTime'', Inr (timeNow w h3 - start)),
                                       (''benchId'', Inl benchId),
                                       (''topology'', Inl (topology s')),
                                       (''cni'', Inl (cni s'))]
                       in case jsonEncode w h3 response of
                            Inl err \<Rightarrow>
                              (ctx_Error err StatusInternalServerError, s',
                               spanEnd s' ''http_request''
                                 (h3 @ [Encode response (Inl err)]))
                          | Inr bytes \<Rightarrow>
                              (\<lparr>statusCode = StatusOK, contentType = ''application/json'',
                                body = bytes\<rparr>,
                               s',
                               spanEnd s' ''http_request''
                                 (h3 @ [Encode response (Inr bytes)]))))))"

text \<open>The calls of the encoder among the events \<open>evs\<close>.\<close>

fun encode_of :: "event \<Rightarrow> ((string \<times> (string + int)) list \<times> (string + string)) list" where
  "encode_of (Encode m r) = [(m, r)]"
| "encode_of e = []"

definition encodes :: "event list \<Rightarrow> ((string \<times> (string + int)) list \<times> (string + string)) list" where
  "encodes evs = concat (map encode_of evs)"

section \<open>Startup\<close>

text \<open>
  Go's \<^verbatim>\<open>strings.Split\<close> for a separator of one byte: the pieces between the
  separators, one more piece than there are separators.
\<close>

fun strings_Split :: "string \<Rightarrow> char \<Rightarrow> string list" where
  "strings_Split [] sep = [[]]"
| "strings_Split (x # xs) sep =
     (if x = sep then [] # strings_Split xs sep
      else (case strings_Split xs sep of
              [] \<Rightarrow> [[x]]
            | p # ps \<Rightarrow> (x # p) # ps))"

text \<open>The peer list that \<^verbatim>\<open>main\<close> derives from the \<^verbatim>\<open>-out\<close> flag.\<close>

definition processedOutServices :: "string \<Rightarrow> string list" where
  "processedOutServices outFlag =
     (let split = strings_Split outFlag CHR '','' in
      if length split > 1 then split else [])"

section \<open>Auxiliary notions for the proofs\<close>

text \<open>Two states of one service differ at most in the pool.\<close>

definition same_config :: "Service \<Rightarrow> Service \<Rightarrow> bool" where
  "same_config s s' \<longleftrightarrow> s' = s\<lparr>connPool := connPool s'\<rparr>"

text \<open>What a \<^verbatim>\<open>req_resp\<close> trace record keeps of the reply it reports.\<close>

definition ids_of_trace :: "TraceLog \<Rightarrow> string \<times> string \<times> string" where
  "ids_of_trace t = (log_BenchID t, log_TraceID t, log_RelatedService t)"

definition ids_of_message :: "Message \<Rightarrow> string \<times> string \<times> string" where
  "ids_of_message m = (BenchId m, TraceId m, From m)"

text \<open>Events with no channel construction, no remote call and no log line.\<close>

definition quiet :: "event list \<Rightarrow> bool" where
  "quiet evs \<longleftrightarrow>
     requests evs = [] \<and> failures evs = [] \<and> replies evs = [] \<and> logged evs = [] \<and>
     dialled evs = [] \<and> attempted evs = [] \<and> encodes evs = [] \<and>
     traced ''req_start'' evs = [] \<and> traced ''req_resp'' evs = []"

text \<open>What the pool gained between two states, for the peer \<open>m\<close>.\<close>

definition gained :: "Service \<Rightarrow> Service \<Rightarrow> string \<Rightarrow> conn list" where
  "gained s s' m =
     (case connPool s m of
        Some c \<Rightarrow> []
      | None \<Rightarrow> (case connPool s' m of None \<Rightarrow> [] | Some c \<Rightarrow> [c]))"

section \<open>Example nodes and environments\<close>

text \<open>
  An environment whose clock counts the events, whose channel construction always
  succeeds with a fresh handle, whose peers answer by \<open>answer\<close>, and whose encoder
  succeeds.
\<close>

definition world_of :: "(Message \<Rightarrow> string + Message option) \<Rightarrow> world" where
  "world_of answer =
     \<lparr>timeNow = (\<lambda>h. int (length h)),
      grpcNewClient = (\<lambda>h target. Inr (length h)),
      clientProcess = (\<lambda>h ctx c m. answer m),
      jsonEncode = (\<lambda>h fields. Inr ''{}'')\<rparr>"

text \<open>A peer whose call runs into the deadline, and a peer that answers as a leaf \<open>B\<close>.\<close>

definition deadline_exceeded :: "Message \<Rightarrow> string + Message option" where
  "deadline_exceeded m =
     Inl ''rpc error: code = DeadlineExceeded desc = context deadline exceeded''"

definition leaf_answer :: "Message \<Rightarrow> string + Message option" where
  "leaf_answer m =
     Inr (Some \<lparr>From = ''B'', BenchId = BenchId m, TraceId = TraceId m,
                Depth = Depth m + 1\<rparr>)"

text \<open>A peer that answers with other identifiers and another depth.\<close>

definition odd_answer :: "Message \<Rightarrow> string + Message option" where
  "odd_answer m =
     Inr (Some \<lparr>From = ''Z'', BenchId = ''other'', TraceId = ''7'', Depth = 7\<rparr>)"

text \<open>An environment in which the first channel construction fails and later ones succeed.\<close>

definition flaky_world :: world where
  "flaky_world =
     \<lparr>timeNow = (\<lambda>h. int (length h)),
      grpcNewClient = (\<lambda>h target. if dialled h = [] then Inl ''bad target'' else Inr 1),
      clientProcess = (\<lambda>h ctx c m. leaf_answer m),
      jsonEncode = (\<lambda>h fields. Inr ''{}'')\<rparr>"

definition node_A :: Service where
  "node_A =
     NewService \<lparr>Name = ''A'', OutServices = [''B'', ''C''], ProcessingDelay = 10000000,
       RPS = 0, Topology = ''chain'', CNI = ''cilium'', TracerProvider = False\<rparr>"

definition leaf_A :: Service where
  "leaf_A =
     NewService \<lparr>Name = ''A'', OutServices = [], ProcessingDelay = 5000000000,
       RPS = 0, Topology = ''chain'', CNI = ''cilium'', TracerProvider = False\<rparr>"

definition req0 :: Message where
  "req0 = \<lparr>From = ''client'', BenchId = ''bench-1'', TraceId = ''42'', Depth = 0\<rparr>"

definition no_deadline :: Context where
  "no_deadline = \<lparr>deadline = None\<rparr>"

text \<open>An environment in which the first remote call runs into the deadline and later ones succeed.\<close>

definition mixed_world :: world where
  "mixed_world =
     \<lparr>timeNow = (\<lambda>h. int (length h)),
      grpcNewClient = (\<lambda>h target. Inr (length h)),
      clientProcess = (\<lambda>h ctx c m.
         if requests h = [] then deadline_exceeded m
         else Inr (Some \<lparr>From = ''C'', BenchId = BenchId m, TraceId = TraceId m,
                          Depth = Depth m + 1\<rparr>)),
      jsonEncode = (\<lambda>h fields. Inr ''{}'')\<rparr>"

definition node_B :: Service where
  "node_B =
     NewService \<lparr>Name = ''B'', OutServices = [''D''], ProcessingDelay = 0,
       RPS = 0, Topology = ''chain'', CNI = ''cilium'', TracerProvider = True\<rparr>"

text \<open>The request that \<open>node_A\<close> sends downstream while it processes \<open>req0\<close>.\<close>

definition hop1 :: Message where
  "hop1 = \<lparr>From = ''A'', BenchId = ''bench-1'', TraceId = ''42'', Depth = 1\<rparr>"

text \<open>
  An environment whose peers need five seconds: a call with a deadline sooner than that
  fails with the deadline error.
\<close>

definition slow_world :: world where
  "slow_world =
     \<lparr>timeNow = (\<lambda>h. int (length h)),
      grpcNewClient = (\<lambda>h target. Inr (length h)),
      clientProcess = (\<lambda>h ctx c m.
         case deadline ctx of
           None \<Rightarrow> leaf_answer m
         | Some d \<Rightarrow> if d < int (length h) + 5000000000 then deadline_exceeded m
                     else leaf_answer m),
      jsonEncode = (\<lambda>h fields. Inr ''{}'')\<rparr>"

text \<open>The configuration that \<^verbatim>\<open>main\<close> builds for \<^verbatim>\<open>-name A -out B\<close>.\<close>

definition config_B :: ServiceConfig where
  "config_B = \<lparr>Name = ''A'', OutServices = processedOutServices ''B'', ProcessingDelay = 0,
       RPS = 0, Topology = ''chain'', CNI = ''cilium'', TracerProvider = False\<rparr>"

section \<open>Basic facts\<close>

lemmas observer_defs =
  constructed_def dialled_def requests_def replies_def logged_def traced_def failures_def
  attempted_def encodes_def

lemmas run_defs =
  NewService_def NewTracer_def
  Process_def Process_delay_def LogTrace_def spanStart_def spanEnd_def fanOut_task_def
  callService_def getConnection_def getConnection_rlocked_def getConnection_locked_def
  Let_def new_events_def

lemma new_events_append: "new_events h (h @ evs) = evs"
  by (simp add: new_events_def)

lemma observers_append:
  "requests (a @ b) = requests a @ requests b"
  "logged (a @ b) = logged a @ logged b"
  "failures (a @ b) = failures a @ failures b"
  "replies (a @ b) = replies a @ replies b"
  "dialled (a @ b) = dialled a @ dialled b"
  "attempted (a @ b) = attempted a @ attempted b"
  "encodes (a @ b) = encodes a @ encodes b"
  "constructed n (a @ b) = constructed n a @ constructed n b"
  "traced operation (a @ b) = traced operation a @ traced operation b"
  by (simp_all add: observer_defs)

lemma same_config_refl: "same_config s s"
  by (simp add: same_config_def)

lemma same_config_update: "same_config s (s\<lparr>connPool := p\<rparr>)"
  by (simp add: same_config_def)

lemma same_config_trans: "same_config s s1 \<Longrightarrow> same_config s1 s2 \<Longrightarrow> same_config s s2"
  unfolding same_config_def
  by (metis Service.surjective Service.update_convs(5))

lemma same_config_fields:
  assumes "same_config s s'"
  shows "name s' = name s" "outServices s' = outServices s" "tracer s' = tracer s"
    "otelTracer s' = otelTracer s" "processingDelay s' = processingDelay s"
    "topology s' = topology s" "cni s' = cni s" "rps s' = rps s"
proof -
  from assms obtain p where "s' = s\<lparr>connPool := p\<rparr>"
    unfolding same_config_def by blast
  then show "name s' = name s" "outServices s' = outServices s" "tracer s' = tracer s"
    "otelTracer s' = otelTracer s" "processingDelay s' = processingDelay s"
    "topology s' = topology s" "cni s' = cni s" "rps s' = rps s"
    by simp_all
qed

lemma getConnection_cases:
  assumes "getConnection w n (s, h) = (r, s', h')"
  obtains
    (hit) c where "connPool s n = Some c" "r = Inr c" "s' = s" "h' = h"
  | (failed) err where "connPool s n = None"
      "grpcNewClient w h (n @ '':50051'') = Inl err"
      "r = Inl (''failed to connect to '' @ n @ '': '' @ err)" "s' = s"
      "h' = h @ [NewClient (n @ '':50051'') (Inl err)]"
  | (built) c where "connPool s n = None"
      "grpcNewClient w h (n @ '':50051'') = Inr c"
      "r = Inr c" "s' = s\<lparr>connPool := (connPool s)(n \<mapsto> c)\<rparr>"
      "h' = h @ [NewClient (n @ '':50051'') (Inr c)]"
  using assms
  by (auto simp: getConnection_def getConnection_rlocked_def getConnection_locked_def Let_def
      split: option.splits sum.splits)

lemma callService_effect:
  assumes "callService w ctx n b t d (s, h) = (r, s', h')"
  shows "\<exists>evs. h' = h @ evs \<and> same_config s s'
     \<and> (\<forall>m c. connPool s m = Some c \<longrightarrow> connPool s' m = Some c)
     \<and> set (requests evs) \<subseteq> {\<lparr>From = name s, BenchId = b, TraceId = t, Depth = d\<rparr>}
     \<and> logged evs = [] \<and> traced operation evs = []
     \<and> failures evs = (case r of Inl e \<Rightarrow> [e] | Inr x \<Rightarrow> [])
     \<and> replies evs = (case r of Inr (Some resp) \<Rightarrow> [resp] | _ \<Rightarrow> [])
     \<and> attempted evs = [n] \<and> encodes evs = []"
proof -
  obtain r0 s0 h0 where g: "getConnection w n (s, spanStart s ''call_service'' h) = (r0, s0, h0)"
    by (metis prod_cases3)
  from g show ?thesis
  proof (cases rule: getConnection_cases)
    case (hit c)
    with assms g show ?thesis
      by (auto simp: callService_def Let_def spanStart_def spanEnd_def observer_defs
          same_config_refl same_config_update split: sum.splits option.splits)
  next
    case (failed err)
    with assms g show ?thesis 
      by (auto simp: callService_def Let_def spanStart_def spanEnd_def observer_defs
          same_config_refl same_config_update split: sum.splits option.splits)
  next
    case (built c)
    with assms g show ?thesis 
      by (auto simp: callService_def Let_def spanStart_def spanEnd_def observer_defs
          same_config_refl same_config_update split: sum.splits option.splits)
  qed
qed


lemma fanOut_task_effect:
  assumes "fanOut_task w ctx req d n (rs, es, s, h) = (rs', es', s', h')"
  shows "\<exists>evs. h' = h @ evs \<and> same_config s s'
     \<and> (\<forall>m c. connPool s m = Some c \<longrightarrow> connPool s' m = Some c)
     \<and> set (requests evs) \<subseteq> {\<lparr>From = name s, BenchId = BenchId req, TraceId = TraceId req, Depth = d\<rparr>}
     \<and> logged evs = [] \<and> es' = es @ failures evs \<and> rs' = rs @ replies evs
     \<and> map log_RelatedService (traced ''req_start'' evs) = [n]
     \<and> map ids_of_trace (traced ''req_resp'' evs) = map ids_of_message (replies evs)
     \<and> attempted evs = [n] \<and> encodes evs = []"
proof -
  let ?h1 = "LogTrace w (tracer s) ''req_start'' (BenchId req) (TraceId req) n h"
  obtain tr where tr: "?h1 = h @ [Trace tr]" "log_Operation tr = ''req_start''"
     "log_RelatedService tr = n"
    by (simp add: LogTrace_def)
  obtain r s0 h0 where c: "callService w ctx n (BenchId req) (TraceId req) d (s, ?h1) = (r, s0, h0)"
    by (metis prod_cases3)
  from callService_effect [OF c, of "''req_start''"] callService_effect [OF c, of "''req_resp''"]
  obtain evs where e: "h0 = ?h1 @ evs" "same_config s s0"
     "\<forall>m c. connPool s m = Some c \<longrightarrow> connPool s0 m = Some c"
     "set (requests evs) \<subseteq> {\<lparr>From = name s, BenchId = BenchId req, TraceId = TraceId req, Depth = d\<rparr>}"
     "logged evs = []" "traced ''req_start'' evs = []" "traced ''req_resp'' evs = []"
     "failures evs = (case r of Inl e \<Rightarrow> [e] | Inr x \<Rightarrow> [])"
     "replies evs = (case r of Inr (Some resp) \<Rightarrow> [resp] | _ \<Rightarrow> [])"
     "attempted evs = [n]" "encodes evs = []"
    by auto
  have pre: "requests (Trace tr # evs) = requests evs" "logged (Trace tr # evs) = logged evs"
    "failures (Trace tr # evs) = failures evs" "replies (Trace tr # evs) = replies evs"
    "traced ''req_start'' (Trace tr # evs) = tr # traced ''req_start'' evs"
    "traced ''req_resp'' (Trace tr # evs) = traced ''req_resp'' evs"
    "attempted (Trace tr # evs) = attempted evs"
    "encodes (Trace tr # evs) = encodes evs"
    using tr(2) by (simp_all add: observer_defs)
  show ?thesis
  proof (cases r)
    case (Inl err)
    with assms c have eqs: "rs' = rs" "es' = es @ [err]" "s' = s0" "h' = h0"
      by (auto simp: fanOut_task_def)
    show ?thesis
      apply (rule exI [of _ "Trace tr # evs"])
      using e pre tr eqs Inl by simp
  next
    case (Inr x)
    show ?thesis
    proof (cases x)
      case None
      with Inr assms c have eqs: "rs' = rs" "es' = es" "s' = s0" "h' = h0"
        by (auto simp: fanOut_task_def)
      show ?thesis
        apply (rule exI [of _ "Trace tr # evs"])
        using e pre tr eqs Inr None by simp
    next
      case (Some resp)
      let ?h2 = "LogTrace w (tracer s0) ''req_resp'' (BenchId resp) (TraceId resp) (From resp) h0"
      from Some Inr assms c have eqs: "rs' = rs @ [resp]" "es' = es" "s' = s0" "h' = ?h2"
        by (auto simp: fanOut_task_def)
      obtain tr2 where tr2: "?h2 = h0 @ [Trace tr2]" "log_Operation tr2 = ''req_resp''"
        "ids_of_trace tr2 = ids_of_message resp"
        by (simp add: LogTrace_def ids_of_trace_def ids_of_message_def)
      have post: "requests (Trace tr # evs @ [Trace tr2]) = requests evs"
        "logged (Trace tr # evs @ [Trace tr2]) = logged evs"
        "failures (Trace tr # evs @ [Trace tr2]) = failures evs"
        "replies (Trace tr # evs @ [Trace tr2]) = replies evs"
        "traced ''req_start'' (Trace tr # evs @ [Trace tr2]) = tr # traced ''req_start'' evs"
        "traced ''req_resp'' (Trace tr # evs @ [Trace tr2]) = traced ''req_resp'' evs @ [tr2]"
        "attempted (Trace tr # evs @ [Trace tr2]) = attempted evs"
        "encodes (Trace tr # evs @ [Trace tr2]) = encodes evs"
        using tr(2) tr2(2) by (simp_all add: observer_defs)
      show ?thesis
        apply (rule exI [of _ "Trace tr # evs @ [Trace tr2]"])
        using e post tr tr2 eqs Inr Some by simp
    qed
  qed
qed


lemma fanOut_effect:
  assumes "fanOut w ctx req d peers (rs, es, s, h) = (rs', es', s', h')"
  shows "\<exists>evs. h' = h @ evs \<and> same_config s s'
     \<and> (\<forall>m c. connPool s m = Some c \<longrightarrow> connPool s' m = Some c)
     \<and> set (requests evs) \<subseteq> {\<lparr>From = name s, BenchId = BenchId req, TraceId = TraceId req, Depth = d\<rparr>}
     \<and> logged evs = [] \<and> es' = es @ failures evs \<and> rs' = rs @ replies evs
     \<and> map log_RelatedService (traced ''req_start'' evs) = peers
     \<and> map ids_of_trace (traced ''req_resp'' evs) = map ids_of_message (replies evs)
     \<and> attempted evs = peers \<and> encodes evs = []"
  using assms
proof (induction peers arbitrary: rs es s h)
  case Nil
  then show ?case by (simp add: observer_defs same_config_refl)
next
  case (Cons n peers)
  obtain rs1 es1 s1 h1 where t: "fanOut_task w ctx req d n (rs, es, s, h) = (rs1, es1, s1, h1)"
    by (metis prod_cases4)
  from fanOut_task_effect [OF t] obtain evs1 where e1:
     "h1 = h @ evs1" "same_config s s1"
     "\<forall>m c. connPool s m = Some c \<longrightarrow> connPool s1 m = Some c"
     "set (requests evs1) \<subseteq> {\<lparr>From = name s, BenchId = BenchId req, TraceId = TraceId req, Depth = d\<rparr>}"
     "logged evs1 = []" "es1 = es @ failures evs1" "rs1 = rs @ replies evs1"
     "map log_RelatedService (traced ''req_start'' evs1) = [n]"
     "map ids_of_trace (traced ''req_resp'' evs1) = map ids_of_message (replies evs1)"
     "attempted evs1 = [n]" "encodes evs1 = []"
    by - (erule exE, (erule conjE)+, rule that)
  from Cons.prems t have "fanOut w ctx req d peers (rs1, es1, s1, h1) = (rs', es', s', h')"
    by simp
  from Cons.IH [OF this] obtain evs2 where e2:
     "h' = h1 @ evs2" "same_config s1 s'"
     "\<forall>m c. connPool s1 m = Some c \<longrightarrow> connPool s' m = Some c"
     "set (requests evs2) \<subseteq> {\<lparr>From = name s1, BenchId = BenchId req, TraceId = TraceId req, Depth = d\<rparr>}"
     "logged evs2 = []" "es' = es1 @ failures evs2" "rs' = rs1 @ replies evs2"
     "map log_RelatedService (traced ''req_start'' evs2) = peers"
     "map ids_of_trace (traced ''req_resp'' evs2) = map ids_of_message (replies evs2)"
     "attempted evs2 = peers" "encodes evs2 = []"
    by - (erule exE, (erule conjE)+, rule that)
  have n1: "name s1 = name s" using e1(2) by (rule same_config_fields)
  have cfg: "same_config s s'"
    using e1(2) e2(2) by (rule same_config_trans)
  show ?case
  proof (intro exI [of _ "evs1 @ evs2"] conjI)
    show "h' = h @ evs1 @ evs2" using e1(1) e2(1) by simp
    show "same_config s s'" by (rule cfg)
    show "\<forall>m c. connPool s m = Some c \<longrightarrow> connPool s' m = Some c"
      using e1(3) e2(3) by blast
    show "set (requests (evs1 @ evs2)) \<subseteq> {\<lparr>From = name s, BenchId = BenchId req, TraceId = TraceId req, Depth = d\<rparr>}"
      using e1(4) e2(4) n1 by (simp add: requests_def)
    show "logged (evs1 @ evs2) = []" using e1(5) e2(5) by (simp add: logged_def)
    show "es' = es @ failures (evs1 @ evs2)" using e1(6) e2(6) by (simp add: failures_def)
    show "rs' = rs @ replies (evs1 @ evs2)" using e1(7) e2(7) by (simp add: replies_def)
    show "map log_RelatedService (traced ''req_start'' (evs1 @ evs2)) = n # peers"
      using e1(8) e2(8) by (simp add: traced_def)
    show "map ids_of_trace (traced ''req_resp'' (evs1 @ evs2)) = map ids_of_message (replies (evs1 @ evs2))"
      using e1(9) e2(9) by (simp add: traced_def replies_def)
    show "attempted (evs1 @ evs2) = n # peers"
      using e1(10) e2(10) by (simp add: attempted_def)
    show "encodes (evs1 @ evs2) = []"
      using e1(11) e2(11) by (simp add: encodes_def)
  qed
qed


lemma Process_prefix:
  "\<exists>pre. Process_delay s (LogTrace w (tracer s) ''process_start'' b t f (spanStart s ''Process'' h)) = h @ pre
     \<and> quiet pre"
  by (simp add: Process_delay_def LogTrace_def spanStart_def quiet_def observer_defs)

lemma Process_suffix:
  "\<exists>post. spanEnd s ''Process'' (LogTrace w (tracer s) ''process_end'' b t f h) = h @ post
     \<and> quiet post"
  by (simp add: LogTrace_def spanEnd_def quiet_def observer_defs)

lemma Process_leaf:
  assumes "outServices s = []"
  shows "\<exists>evs. Process w ctx req (s, h) =
      (Inr \<lparr>From = name s, BenchId = BenchId req, TraceId = TraceId req, Depth = Depth req + 1\<rparr>,
       s, h @ evs) \<and> quiet evs"
proof -
  obtain pre where pre: "Process_delay s (LogTrace w (tracer s) ''process_start'' (BenchId req)
      (TraceId req) (From req) (spanStart s ''Process'' h)) = h @ pre" "quiet pre"
    using Process_prefix by blast
  obtain post where post: "spanEnd s ''Process'' (LogTrace w (tracer s) ''process_end''
      (BenchId req) (TraceId req) (From req) (h @ pre)) = (h @ pre) @ post" "quiet post"
    using Process_suffix by blast
  have "quiet (pre @ post)"
    using pre(2) post(2) by (simp add: quiet_def observer_defs)
  moreover have "Process w ctx req (s, h) =
      (Inr \<lparr>From = name s, BenchId = BenchId req, TraceId = TraceId req, Depth = Depth req + 1\<rparr>,
       s, h @ pre @ post)"
    using assms pre(1) post(1) by (simp add: Process_def Let_def)
  ultimately show ?thesis by blast
qed

lemma Process_branch:
  assumes "outServices s \<noteq> []"
  shows "\<exists>s' evs. Process w ctx req (s, h) =
      (Inr \<lparr>From = name s, BenchId = BenchId req, TraceId = TraceId req, Depth = 0\<rparr>,
       s', h @ evs)
     \<and> same_config s s'
     \<and> (\<forall>m c. connPool s m = Some c \<longrightarrow> connPool s' m = Some c)
     \<and> set (requests evs) \<subseteq> {\<lparr>From = name s, BenchId = BenchId req, TraceId = TraceId req,
           Depth = Depth req + 1\<rparr>}
     \<and> logged evs = failures evs
     \<and> map log_RelatedService (traced ''req_start'' evs) = outServices s
     \<and> map ids_of_trace (traced ''req_resp'' evs) = map ids_of_message (replies evs)
     \<and> attempted evs = outServices s \<and> encodes evs = []"
proof -
  obtain pre where pre: "Process_delay s (LogTrace w (tracer s) ''process_start'' (BenchId req)
      (TraceId req) (From req) (spanStart s ''Process'' h)) = h @ pre" "quiet pre"
    using Process_prefix by blast
  obtain rs es s' h3 where f: "fanOut w ctx req (Depth req + 1) (outServices s) ([], [], s, h @ pre)
      = (rs, es, s', h3)"
    by (metis prod_cases4)
  from fanOut_effect [OF f] obtain evs where e:
     "h3 = (h @ pre) @ evs" "same_config s s'"
     "\<forall>m c. connPool s m = Some c \<longrightarrow> connPool s' m = Some c"
     "set (requests evs) \<subseteq> {\<lparr>From = name s, BenchId = BenchId req, TraceId = TraceId req, Depth = Depth req + 1\<rparr>}"
     "logged evs = []" "es = [] @ failures evs" "rs = [] @ replies evs"
     "map log_RelatedService (traced ''req_start'' evs) = outServices s"
     "map ids_of_trace (traced ''req_resp'' evs) = map ids_of_message (replies evs)"
     "attempted evs = outServices s" "encodes evs = []"
    by - (erule exE, (erule conjE)+, rule that)
  obtain post where post: "spanEnd s' ''Process'' (LogTrace w (tracer s') ''process_end''
      (BenchId req) (TraceId req) (From req) (h3 @ map LogLine es)) = (h3 @ map LogLine es) @ post"
      "quiet post"
    using Process_suffix by blast
  let ?evs = "pre @ evs @ map LogLine es @ post"
  have lines: "\<And>xs. logged (map LogLine xs) = xs" "\<And>xs. requests (map LogLine xs) = []"
    "\<And>xs. failures (map LogLine xs) = []" "\<And>xs. replies (map LogLine xs) = []"
    "\<And>xs. traced ''req_start'' (map LogLine xs) = []"
    "\<And>xs. traced ''req_resp'' (map LogLine xs) = []"
    "\<And>xs. attempted (map LogLine xs) = []"
    "\<And>xs. encodes (map LogLine xs) = []"
  proof -
    fix xs :: "string list"
    show "logged (map LogLine xs) = xs" by (induction xs) (simp_all add: logged_def)
    show "requests (map LogLine xs) = []" by (induction xs) (simp_all add: requests_def)
    show "failures (map LogLine xs) = []" by (induction xs) (simp_all add: failures_def)
    show "replies (map LogLine xs) = []" by (induction xs) (simp_all add: replies_def)
    show "traced ''req_start'' (map LogLine xs) = []" by (induction xs) (simp_all add: traced_def)
    show "traced ''req_resp'' (map LogLine xs) = []" by (induction xs) (simp_all add: traced_def)
    show "attempted (map LogLine xs) = []" by (induction xs) (simp_all add: attempted_def)
    show "encodes (map LogLine xs) = []" by (induction xs) (simp_all add: encodes_def)
  qed
  have n: "name s' = name s" using e(2) by (rule same_config_fields)
  have P: "Process w ctx req (s, h) =
      (Inr \<lparr>From = name s, BenchId = BenchId req, TraceId = TraceId req, Depth = 0\<rparr>,
       s', h @ ?evs)"
    using assms pre(1) f post(1) e(1) n by (simp add: Process_def Let_def)
  have app: "\<And>a b. requests (a @ b) = requests a @ requests b"
    "\<And>a b. logged (a @ b) = logged a @ logged b"
    "\<And>a b. failures (a @ b) = failures a @ failures b"
    "\<And>a b. replies (a @ b) = replies a @ replies b"
    "\<And>a b operation. traced operation (a @ b) = traced operation a @ traced operation b"
    "\<And>a b. attempted (a @ b) = attempted a @ attempted b"
    "\<And>a b. encodes (a @ b) = encodes a @ encodes b"
    by (simp_all add: observer_defs)
  have q: "requests pre = []" "failures pre = []" "replies pre = []" "logged pre = []"
    "traced ''req_start'' pre = []" "traced ''req_resp'' pre = []"
    "requests post = []" "failures post = []" "replies post = []" "logged post = []"
    "traced ''req_start'' post = []" "traced ''req_resp'' post = []"
    "attempted pre = []" "attempted post = []"
    "encodes pre = []" "encodes post = []"
    using pre(2) post(2) by (simp_all add: quiet_def)
  show ?thesis
  proof (intro exI [of _ s'] exI [of _ ?evs] conjI)
    show "Process w ctx req (s, h) =
      (Inr \<lparr>From = name s, BenchId = BenchId req, TraceId = TraceId req, Depth = 0\<rparr>,
       s', h @ ?evs)" by (rule P)
    show "same_config s s'" by (rule e(2))
    show "\<forall>m c. connPool s m = Some c \<longrightarrow> connPool s' m = Some c" by (rule e(3))
    show "set (requests ?evs) \<subseteq> {\<lparr>From = name s, BenchId = BenchId req, TraceId = TraceId req,
           Depth = Depth req + 1\<rparr>}"
      using e(4) by (simp add: app q lines)
    show "logged ?evs = failures ?evs"
      using e(5) e(6) by (simp add: app q lines)
    show "map log_RelatedService (traced ''req_start'' ?evs) = outServices s"
      using e(8) by (simp add: app q lines)
    show "map ids_of_trace (traced ''req_resp'' ?evs) = map ids_of_message (replies ?evs)"
      using e(9) by (simp add: app q lines)
    show "attempted ?evs = outServices s"
      using e(10) by (simp add: app q lines)
    show "encodes ?evs = []"
      using e(11) by (simp add: app q lines)
  qed
qed


lemma Process_effect:
  "\<exists>s' evs. Process w ctx req (s, h) =
      (Inr \<lparr>From = name s, BenchId = BenchId req, TraceId = TraceId req,
            Depth = (if outServices s = [] then Depth req + 1 else 0)\<rparr>,
       s', h @ evs)
     \<and> same_config s s'
     \<and> (\<forall>m c. connPool s m = Some c \<longrightarrow> connPool s' m = Some c)
     \<and> set (requests evs) \<subseteq> {\<lparr>From = name s, BenchId = BenchId req, TraceId = TraceId req,
           Depth = Depth req + 1\<rparr>}
     \<and> logged evs = failures evs
     \<and> map log_RelatedService (traced ''req_start'' evs) = outServices s
     \<and> map ids_of_trace (traced ''req_resp'' evs) = map ids_of_message (replies evs)
     \<and> attempted evs = outServices s \<and> encodes evs = []"
proof (cases "outServices s = []")
  case True
  from Process_leaf [OF True, of w ctx req h] obtain evs where
    e: "Process w ctx req (s, h) =
      (Inr \<lparr>From = name s, BenchId = BenchId req, TraceId = TraceId req, Depth = Depth req + 1\<rparr>,
       s, h @ evs)" "quiet evs"
    by blast
  show ?thesis
    apply (rule exI [of _ s], rule exI [of _ evs])
    using e True by (simp add: quiet_def same_config_refl)
next
  case False
  from Process_branch [OF False, of w ctx req h] show ?thesis
    using False by simp
qed

lemma Process_reply:
  "fst (Process w ctx req (s, h)) =
     Inr \<lparr>From = name s, BenchId = BenchId req, TraceId = TraceId req,
          Depth = (if outServices s = [] then Depth req + 1 else 0)\<rparr>"
proof -
  from Process_effect [of w ctx req s h] obtain s' evs where
    "Process w ctx req (s, h) =
      (Inr \<lparr>From = name s, BenchId = BenchId req, TraceId = TraceId req,
            Depth = (if outServices s = [] then Depth req + 1 else 0)\<rparr>, s', h @ evs)"
    by blast
  then show ?thesis by simp
qed

lemma Process_requests:
  assumes "m \<in> set (requests (new_events h (snd (snd (Process w ctx req (s, h))))))"
  shows "m = \<lparr>From = name s, BenchId = BenchId req, TraceId = TraceId req, Depth = Depth req + 1\<rparr>"
proof -
  from Process_effect [of w ctx req s h] obtain s' evs where
    e: "Process w ctx req (s, h) =
      (Inr \<lparr>From = name s, BenchId = BenchId req, TraceId = TraceId req,
            Depth = (if outServices s = [] then Depth req + 1 else 0)\<rparr>, s', h @ evs)"
    "set (requests evs) \<subseteq> {\<lparr>From = name s, BenchId = BenchId req, TraceId = TraceId req,
           Depth = Depth req + 1\<rparr>}"
    by blast
  from e(1) have "new_events h (snd (snd (Process w ctx req (s, h)))) = evs"
    by (simp add: new_events_append)
  with assms e(2) show ?thesis by auto
qed

lemma in_call_tree_ids:
  assumes "in_call_tree root req"
  shows "BenchId req = BenchId root \<and> TraceId req = TraceId root"
  using assms
proof (induction rule: in_call_tree.induct)
  case at_root
  show ?case by simp
next
  case (at_hop req m h w ctx s)
  from Process_requests [OF at_hop.hyps(2)] at_hop.IH show ?case by simp
qed

lemma sint_succ:
  fixes x :: "32 word"
  assumes "sint x < 2147483647"
  shows "sint (x + 1) = sint x + 1"
proof -
  have lo: "- (2 ^ 31) \<le> sint x" using sint_ge [of x] by simp
  have "sint (x + 1) = signed_take_bit 31 (sint x + 1)"
    by (simp add: sint_word_ariths)
  also have "\<dots> = sint x + 1"
    using lo assms by (intro signed_take_bit_int_eq_self) simp_all
  finally show ?thesis .
qed

section \<open>The registry under any schedule\<close>

lemma getConnection_locked_cases:
  assumes "getConnection_locked w n (s, h) = (r, s', h')"
  obtains
    (hit) c where "connPool s n = Some c" "r = Inr c" "s' = s" "h' = h"
  | (failed) err where "connPool s n = None"
      "grpcNewClient w h (n @ '':50051'') = Inl err"
      "r = Inl (''failed to connect to '' @ n @ '': '' @ err)" "s' = s"
      "h' = h @ [NewClient (n @ '':50051'') (Inl err)]"
  | (built) c where "connPool s n = None"
      "grpcNewClient w h (n @ '':50051'') = Inr c"
      "r = Inr c" "s' = s\<lparr>connPool := (connPool s)(n \<mapsto> c)\<rparr>"
      "h' = h @ [NewClient (n @ '':50051'') (Inr c)]"
  using assms
  by (auto simp: getConnection_locked_def Let_def split: option.splits sum.splits)

lemma getConnection_locked_effect:
  assumes "getConnection_locked w n (s, h) = (r, s', h')"
  shows "\<exists>evs. h' = h @ evs \<and> same_config s s'
     \<and> (\<forall>m c. connPool s m = Some c \<longrightarrow> connPool s' m = Some c)
     \<and> (\<forall>c. r = Inr c \<longrightarrow> connPool s' n = Some c)
     \<and> (\<forall>m. constructed m evs = gained s s' m)"
  using assms
proof (cases rule: getConnection_locked_cases)
  case (hit c)
  then show ?thesis
    by (auto simp: same_config_refl constructed_def gained_def split: option.splits)
next
  case (failed err)
  then show ?thesis
    by (auto simp: same_config_refl constructed_def gained_def split: option.splits)
next
  case (built c)
  then show ?thesis
    by (auto simp: same_config_update constructed_def gained_def split: option.splits)
qed

lemma gained_trans:
  assumes "\<forall>m c. connPool s m = Some c \<longrightarrow> connPool s1 m = Some c"
    and "\<forall>m c. connPool s1 m = Some c \<longrightarrow> connPool s2 m = Some c"
  shows "gained s s1 m @ gained s1 s2 m = gained s s2 m"
  using assms by (auto simp: gained_def split: option.splits)

lemma run_sections_effect:
  assumes "run_sections w sched (s, h) = (rs, s', h')"
  shows "\<exists>evs. h' = h @ evs \<and> same_config s s'
     \<and> (\<forall>m c. connPool s m = Some c \<longrightarrow> connPool s' m = Some c)
     \<and> (\<forall>n c. (n, Inr c) \<in> set rs \<longrightarrow> connPool s' n = Some c)
     \<and> (\<forall>m. constructed m evs = gained s s' m)"
  using assms
proof (induction sched arbitrary: s h rs)
  case Nil
  then show ?case
    by (auto simp: same_config_refl constructed_def gained_def split: option.splits)
next
  case (Cons x sched)
  show ?case
  proof (cases x)
    case (RLocked n)
    obtain rs0 where r0: "run_sections w sched (s, h) = (rs0, s', h')"
      and rs: "rs = (case getConnection_rlocked n s of Some c \<Rightarrow> [(n, Inr c)] | None \<Rightarrow> []) @ rs0"
      using Cons.prems RLocked by (auto split: prod.splits)
    from Cons.IH [OF r0] obtain evs where e:
      "h' = h @ evs" "same_config s s'"
      "\<forall>m c. connPool s m = Some c \<longrightarrow> connPool s' m = Some c"
      "\<forall>n c. (n, Inr c) \<in> set rs0 \<longrightarrow> connPool s' n = Some c"
      "\<forall>m. constructed m evs = gained s s' m"
      by - (erule exE, (erule conjE)+, rule that)
    have "\<forall>k c. (k, Inr c) \<in> set rs \<longrightarrow> connPool s' k = Some c"
      using rs e(3) e(4) by (auto simp: getConnection_rlocked_def split: option.splits)
    with e show ?thesis by blast
  next
    case (Locked n)
    obtain r s1 h1 rs0 where l: "getConnection_locked w n (s, h) = (r, s1, h1)"
      and r0: "run_sections w sched (s1, h1) = (rs0, s', h')"
      and rs: "rs = (n, r) # rs0"
      using Cons.prems Locked by (auto split: prod.splits)
    from getConnection_locked_effect [OF l] obtain evs1 where e1:
      "h1 = h @ evs1" "same_config s s1"
      "\<forall>m c. connPool s m = Some c \<longrightarrow> connPool s1 m = Some c"
      "\<forall>c. r = Inr c \<longrightarrow> connPool s1 n = Some c"
      "\<forall>m. constructed m evs1 = gained s s1 m"
      by - (erule exE, (erule conjE)+, rule that)
    from Cons.IH [OF r0] obtain evs2 where e2:
      "h' = h1 @ evs2" "same_config s1 s'"
      "\<forall>m c. connPool s1 m = Some c \<longrightarrow> connPool s' m = Some c"
      "\<forall>n c. (n, Inr c) \<in> set rs0 \<longrightarrow> connPool s' n = Some c"
      "\<forall>m. constructed m evs2 = gained s1 s' m"
      by - (erule exE, (erule conjE)+, rule that)
    show ?thesis
    proof (intro exI [of _ "evs1 @ evs2"] conjI)
      show "h' = h @ evs1 @ evs2" using e1(1) e2(1) by simp
      show "same_config s s'" using e1(2) e2(2) by (rule same_config_trans)
      show "\<forall>m c. connPool s m = Some c \<longrightarrow> connPool s' m = Some c"
        using e1(3) e2(3) by blast
      show "\<forall>k c. (k, Inr c) \<in> set rs \<longrightarrow> connPool s' k = Some c"
        using rs e1(4) e2(3) e2(4) by auto
      show "\<forall>m. constructed m (evs1 @ evs2) = gained s s' m"
        using e1(5) e2(5) gained_trans [OF e1(3) e2(3)] by (simp add: observers_append)
    qed
  qed
qed

text \<open>One call of \<^verbatim>\<open>getConnection\<close> is a schedule of its own sections.\<close>

lemma getConnection_as_sections:
  "\<exists>sched. set sched \<subseteq> {RLocked n, Locked n} \<and>
     run_sections w sched (s, h) =
       ([(n, fst (getConnection w n (s, h)))], snd (getConnection w n (s, h)))"
proof (cases "connPool s n")
  case None
  then have "run_sections w [RLocked n, Locked n] (s, h) =
       ([(n, fst (getConnection w n (s, h)))], snd (getConnection w n (s, h)))"
    by (simp add: getConnection_def getConnection_rlocked_def split: prod.splits)
  then show ?thesis by (intro exI [of _ "[RLocked n, Locked n]"]) simp
next
  case (Some c)
  then have "run_sections w [RLocked n] (s, h) =
       ([(n, fst (getConnection w n (s, h)))], snd (getConnection w n (s, h)))"
    by (simp add: getConnection_def getConnection_rlocked_def)
  then show ?thesis by (intro exI [of _ "[RLocked n]"]) simp
qed

section \<open>Splitting the flag\<close>

lemma strings_Split_not_Nil: "strings_Split s sep \<noteq> []"
  by (induction s) (auto split: list.splits)

lemma length_strings_Split: "length (strings_Split s sep) = Suc (count_list s sep)"
proof (induction s)
  case Nil
  show ?case by simp
next
  case (Cons x xs)
  then show ?case
    using strings_Split_not_Nil [of xs sep]
    by (cases "strings_Split xs sep") auto
qed

lemma strings_Split_no_sep: "sep \<notin> set s \<Longrightarrow> strings_Split s sep = [s]"
  by (induction s) auto

lemma count_list_pos: "0 < count_list xs x \<longleftrightarrow> x \<in> set xs"
  by (induction xs) auto

lemma processedOutServices_empty_iff:
  "processedOutServices outFlag = [] \<longleftrightarrow> CHR '','' \<notin> set outFlag"
proof -
  have "length (strings_Split outFlag CHR '','') > 1 \<longleftrightarrow> CHR '','' \<in> set outFlag"
    by (simp add: length_strings_Split count_list_pos)
  then show ?thesis
    using strings_Split_not_Nil [of outFlag "CHR '',''"]
    by (auto simp: processedOutServices_def Let_def)
qed

section \<open>The ingress handler\<close>

lemma traced_after_spanStart:
  "\<exists>pre. LogTrace w t operation b tr rel (spanStart s n h) = h @ pre
     \<and> logged pre = [] \<and> failures pre = [] \<and> encodes pre = []"
  by (simp add: LogTrace_def spanStart_def observer_defs)

lemma LogTrace_one:
  "\<exists>e. LogTrace w t operation b tr rel h = h @ [e]
     \<and> line_of e = [] \<and> failure_of e = [] \<and> encode_of e = []"
  by (simp add: LogTrace_def)

lemma spanEnd_quiet:
  "\<exists>post. spanEnd s n h = h @ post
     \<and> logged post = [] \<and> failures post = [] \<and> encodes post = []"
  by (simp add: spanEnd_def observer_defs)

lemma handle_http_effect:
  assumes "smethod = ''GET'' \<or> smethod = ''POST''"
  shows "\<exists>s' pre post.
      handle_http w smethod postBody (s, h) =
        ((case jsonEncode w (h @ pre)
                 [(''traceId'', Inl (Sprintf_d (timeNow w h))),
                  (''serviceTime'', Inr (timeNow w (h @ pre) - timeNow w h)),
                  (''benchId'', Inl (if smethod = ''GET'' then ''default'' else postBody)),
                  (''topology'', Inl (topology s)),
                  (''cni'', Inl (cni s))] of
            Inl err \<Rightarrow> ctx_Error err StatusInternalServerError
          | Inr bytes \<Rightarrow> \<lparr>statusCode = StatusOK, contentType = ''application/json'',
                            body = bytes\<rparr>),
         s',
         h @ pre @
         Encode [(''traceId'', Inl (Sprintf_d (timeNow w h))),
                 (''serviceTime'', Inr (timeNow w (h @ pre) - timeNow w h)),
                 (''benchId'', Inl (if smethod = ''GET'' then ''default'' else postBody)),
                 (''topology'', Inl (topology s)),
                 (''cni'', Inl (cni s))]
           (jsonEncode w (h @ pre)
                 [(''traceId'', Inl (Sprintf_d (timeNow w h))),
                  (''serviceTime'', Inr (timeNow w (h @ pre) - timeNow w h)),
                  (''benchId'', Inl (if smethod = ''GET'' then ''default'' else postBody)),
                  (''topology'', Inl (topology s)),
                  (''cni'', Inl (cni s))]) # post)
    \<and> encodes pre = [] \<and> encodes post = []
    \<and> logged (pre @ post) = failures (pre @ post)"
proof -
  let ?benchId = "if smethod = ''GET'' then ''default'' else postBody"
  let ?traceId = "Sprintf_d (timeNow w h)"
  let ?reqCtx = "\<lparr>deadline = Some (timeNow w h + 3 * 1000000000)\<rparr>"
  let ?req = "\<lparr>From = name s, BenchId = ?benchId, TraceId = ?traceId, Depth = 0\<rparr>"
  let ?h1 = "LogTrace w (tracer s) ''http_start'' ?benchId ?traceId []
                          (spanStart s ''http_request'' h)"
  obtain pre0 where pre0: "?h1 = h @ pre0" "logged pre0 = []" "failures pre0 = []"
    "encodes pre0 = []"
    using traced_after_spanStart by blast
  from Process_effect [of w ?reqCtx ?req s ?h1] obtain s' evs reply where
    p: "Process w ?reqCtx ?req (s, ?h1) = (Inr reply, s', ?h1 @ evs)"
       "same_config s s'" "logged evs = failures evs" "encodes evs = []"
    by blast
  let ?h3 = "LogTrace w (tracer s') ''http_end'' ?benchId ?traceId [] (?h1 @ evs)"
  obtain e where e: "?h3 = (?h1 @ evs) @ [e]" "line_of e = []" "failure_of e = []"
    "encode_of e = []"
    using LogTrace_one by blast
  have cons: "\<And>xs. logged (e # xs) = logged xs" "\<And>xs. failures (e # xs) = failures xs"
    "\<And>xs. encodes (e # xs) = encodes xs"
    using e(2,3,4) by (simp_all add: observer_defs)
  have nil: "encodes [] = []" "logged [] = []" "failures [] = []"
    by (simp_all add: observer_defs)
  let ?pre = "pre0 @ evs @ [e]"
  have h3: "?h3 = h @ ?pre" using e(1) pre0(1) by simp
  let ?response = "[(''traceId'', Inl ?traceId),
                    (''serviceTime'', Inr (timeNow w ?h3 - timeNow w h)),
                    (''benchId'', Inl ?benchId),
                    (''topology'', Inl (topology s')),
                    (''cni'', Inl (cni s'))]"
  let ?r = "jsonEncode w ?h3 ?response"
  obtain post where post: "spanEnd s' ''http_request'' (?h3 @ [Encode ?response ?r])
      = (?h3 @ [Encode ?response ?r]) @ post"
    "logged post = []" "failures post = []" "encodes post = []"
    using spanEnd_quiet by blast
  have sel: "(if smethod = ''GET'' then Some ''default''
                  else if smethod = ''POST'' then Some postBody
                  else None) = Some ?benchId"
    using assms by auto
  have run: "handle_http w smethod postBody (s, h) =
     ((case ?r of
         Inl err \<Rightarrow> ctx_Error err StatusInternalServerError
       | Inr bytes \<Rightarrow> \<lparr>statusCode = StatusOK, contentType = ''application/json'',
                                body = bytes\<rparr>),
      s', spanEnd s' ''http_request'' (?h3 @ [Encode ?response ?r]))"
    unfolding handle_http_def
    using p(1) by (simp add: sel Let_def split: sum.splits)
  have cfg: "topology s' = topology s" "cni s' = cni s"
    using p(2) by (rule same_config_fields)+
  have hist: "spanEnd s' ''http_request'' (?h3 @ [Encode ?response ?r])
      = h @ ?pre @ Encode ?response ?r # post"
    using post(1) h3 by simp
  have enc: "encodes ?pre = []"
    using pre0(4) p(4) nil by (simp add: observers_append cons)
  have lg: "logged (?pre @ post) = failures (?pre @ post)"
    using pre0(2,3) p(3) post(2,3) nil by (simp add: observers_append cons)
  from run hist have fin: "handle_http w smethod postBody (s, h) =
     ((case ?r of
         Inl err \<Rightarrow> ctx_Error err StatusInternalServerError
       | Inr bytes \<Rightarrow> \<lparr>statusCode = StatusOK, contentType = ''application/json'',
                                body = bytes\<rparr>),
      s', h @ ?pre @ Encode ?response ?r # post)"
    by simp
  show ?thesis
    apply (rule exI [of _ s'], rule exI [of _ ?pre], rule exI [of _ post])
    using fin enc post(4) lg cfg h3 by simp
qed

section \<open>The claims\<close>

text \<open>
  C1, as stated, fails. The ingress node \<open>A\<close> has the peers \<open>B\<close> and \<open>C\<close>, which
  need five seconds; both calls end with the deadline error, both errors are logged, and
  the response is the success response, status 200. And when the ingress node itself is
  a leaf with a delay of five seconds, it sleeps the five seconds and answers 200.
\<close>

theorem ingress_deadline_counterexample:
  "statusCode (fst (handle_http slow_world ''GET'' [] (node_A, []))) = 200 \<and>
   contentType (fst (handle_http slow_world ''GET'' [] (node_A, []))) = ''application/json'' \<and>
   logged (snd (snd (handle_http slow_world ''GET'' [] (node_A, [])))) =
     [''rpc error: code = DeadlineExceeded desc = context deadline exceeded'',
      ''rpc error: code = DeadlineExceeded desc = context deadline exceeded''] \<and>
   processingDelay leaf_A = 5000000000 \<and>
   statusCode (fst (handle_http slow_world ''GET'' [] (leaf_A, []))) = 200 \<and>
   Sleep 5000000000 \<in> set (snd (snd (handle_http slow_world ''GET'' [] (leaf_A, []))))"
  by (simp add: run_defs slow_world_def node_A_def leaf_A_def leaf_answer_def
      deadline_exceeded_def handle_http_def StatusOK_def logged_def)

text \<open>
  C1, amended. For a GET or a POST request the handler calls the JSON encoder exactly
  once, on the map of the trace identifier, the service time, the bench identifier and
  the two labels, after everything else but the end of its span. The response is decided
  by the result of that one call alone: the success response, status 200, with the
  encoded bytes, or the server error with the encoder's error text. Every failure of a
  downstream call, the deadline error among them, is logged, one line for each in some
  order, and is never the response.
\<close>

theorem ingress_reports_success:
  assumes "smethod = ''GET'' \<or> smethod = ''POST''"
  shows "\<exists>s' pre post.
     (let benchId = (if smethod = ''GET'' then ''default'' else postBody);
          response = [(''traceId'', Inl (Sprintf_d (timeNow w h))),
                      (''serviceTime'', Inr (timeNow w (h @ pre) - timeNow w h)),
                      (''benchId'', Inl benchId),
                      (''topology'', Inl (topology s)),
                      (''cni'', Inl (cni s))];
          r = jsonEncode w (h @ pre) response
      in handle_http w smethod postBody (s, h) =
           ((case r of
               Inl err \<Rightarrow> ctx_Error err StatusInternalServerError
             | Inr bytes \<Rightarrow> \<lparr>statusCode = StatusOK, contentType = ''application/json'',
                               body = bytes\<rparr>),
            s', h @ pre @ Encode response r # post)
         \<and> encodes pre = [] \<and> encodes post = []
         \<and> mset (logged (pre @ post)) = mset (failures (pre @ post)))"
proof -
  from handle_http_effect [OF assms, of w postBody s h] obtain s' pre post where
    e: "handle_http w smethod postBody (s, h) =
        ((case jsonEncode w (h @ pre)
                 [(''traceId'', Inl (Sprintf_d (timeNow w h))),
                  (''serviceTime'', Inr (timeNow w (h @ pre) - timeNow w h)),
                  (''benchId'', Inl (if smethod = ''GET'' then ''default'' else postBody)),
                  (''topology'', Inl (topology s)),
                  (''cni'', Inl (cni s))] of
            Inl err \<Rightarrow> ctx_Error err StatusInternalServerError
          | Inr bytes \<Rightarrow> \<lparr>statusCode = StatusOK, contentType = ''application/json'',
                            body = bytes\<rparr>),
         s',
         h @ pre @
         Encode [(''traceId'', Inl (Sprintf_d (timeNow w h))),
                 (''serviceTime'', Inr (timeNow w (h @ pre) - timeNow w h)),
                 (''benchId'', Inl (if smethod = ''GET'' then ''default'' else postBody)),
                 (''topology'', Inl (topology s)),
                 (''cni'', Inl (cni s))]
           (jsonEncode w (h @ pre)
                 [(''traceId'', Inl (Sprintf_d (timeNow w h))),
                  (''serviceTime'', Inr (timeNow w (h @ pre) - timeNow w h)),
                  (''benchId'', Inl (if smethod = ''GET'' then ''default'' else postBody)),
                  (''topology'', Inl (topology s)),
                  (''cni'', Inl (cni s))]) # post)"
      "encodes pre = []" "encodes post = []"
      "logged (pre @ post) = failures (pre @ post)"
    by - (erule exE, erule exE, erule exE, (erule conjE)+, rule that)
  from e(4) have ms: "mset (logged (pre @ post)) = mset (failures (pre @ post))" by simp
  show ?thesis
    apply (rule exI [of _ s'], rule exI [of _ pre], rule exI [of _ post])
    using e(1,2,3) ms by (simp add: Let_def)
qed

theorem ingress_reports_success_witness:
  "(''GET'' = ''GET'' \<or> ''GET'' = ''POST'') \<and>
   fst (handle_http slow_world ''GET'' [] (node_A, [])) =
     \<lparr>statusCode = 200, contentType = ''application/json'', body = ''{}''\<rparr> \<and>
   map snd (encodes (snd (snd (handle_http slow_world ''GET'' [] (node_A, []))))) =
     [Inr ''{}''] \<and>
   failures (snd (snd (handle_http slow_world ''GET'' [] (node_A, [])))) =
     [''rpc error: code = DeadlineExceeded desc = context deadline exceeded'',
      ''rpc error: code = DeadlineExceeded desc = context deadline exceeded''] \<and>
   mset (logged (snd (snd (handle_http slow_world ''GET'' [] (node_A, []))))) =
     mset (failures (snd (snd (handle_http slow_world ''GET'' [] (node_A, [])))))"
proof -
  have m: "''GET'' = ''GET'' \<or> ''GET'' = ''POST''" by simp
  from ingress_reports_success [OF m, where w = slow_world and h = "[]" and postBody = "[]"
      and s = node_A]
  obtain s' pre post r response where
    e: "handle_http slow_world ''GET'' [] (node_A, []) =
          (r, s', [] @ pre @ Encode response (jsonEncode slow_world ([] @ pre) response) # post)"
       "encodes pre = []" "encodes post = []"
       "mset (logged (pre @ post)) = mset (failures (pre @ post))"
    unfolding Let_def by blast
  have c: "logged (pre @ Encode response (jsonEncode slow_world ([] @ pre) response) # post)
             = logged (pre @ post)"
          "failures (pre @ Encode response (jsonEncode slow_world ([] @ pre) response) # post)
             = failures (pre @ post)"
    by (simp_all add: logged_def failures_def)
  have lg: "mset (logged (snd (snd (handle_http slow_world ''GET'' [] (node_A, []))))) =
     mset (failures (snd (snd (handle_http slow_world ''GET'' [] (node_A, [])))))"
    using e(1) e(4) c by simp
  have r: "fst (handle_http slow_world ''GET'' [] (node_A, [])) =
     \<lparr>statusCode = 200, contentType = ''application/json'', body = ''{}''\<rparr>"
    by (simp add: run_defs slow_world_def node_A_def leaf_answer_def deadline_exceeded_def
        handle_http_def StatusOK_def)
  have n: "map snd (encodes (snd (snd (handle_http slow_world ''GET'' [] (node_A, []))))) =
     [Inr ''{}'']"
    by (simp add: run_defs slow_world_def node_A_def leaf_answer_def deadline_exceeded_def
        handle_http_def encodes_def)
  have f: "failures (snd (snd (handle_http slow_world ''GET'' [] (node_A, [])))) =
     [''rpc error: code = DeadlineExceeded desc = context deadline exceeded'',
      ''rpc error: code = DeadlineExceeded desc = context deadline exceeded'']"
    by (simp add: run_defs slow_world_def node_A_def leaf_answer_def deadline_exceeded_def
        handle_http_def failures_def)
  from m r n f lg show ?thesis by blast
qed

text \<open>
  C2. A node with an empty peer list is a leaf: for every input, \<^verbatim>\<open>Process\<close> issues no
  downstream call (no remote call, no channel construction, the pool as it was) and
  returns a message whose origin is the node's name, whose benchId and traceId are the
  input's, and whose depth is the input's depth plus one. The sum is that of
  \<^verbatim>\<open>int32\<close>; below the greatest \<^verbatim>\<open>int32\<close> it is the successor of the signed
  value.
\<close>

theorem leaf_reply:
  assumes "outServices s = []"
  shows "\<exists>evs. Process w ctx req (s, h) =
           (Inr \<lparr>From = name s, BenchId = BenchId req, TraceId = TraceId req,
                 Depth = Depth req + 1\<rparr>, s, h @ evs)
         \<and> requests evs = [] \<and> dialled evs = []
         \<and> (sint (Depth req) < 2147483647 \<longrightarrow>
              sint (Depth req + 1) = sint (Depth req) + 1)"
proof -
  from Process_leaf [OF assms, of w ctx req h] obtain evs where
    e: "Process w ctx req (s, h) =
      (Inr \<lparr>From = name s, BenchId = BenchId req, TraceId = TraceId req, Depth = Depth req + 1\<rparr>,
       s, h @ evs)" "quiet evs"
    by blast
  from e(2) have "requests evs = []" "dialled evs = []" by (simp_all add: quiet_def)
  with e(1) sint_succ show ?thesis by blast
qed

theorem leaf_reply_witness:
  "outServices leaf_A = [] \<and> sint (Depth req0) < 2147483647 \<and>
   fst (Process (world_of leaf_answer) no_deadline req0 (leaf_A, [])) =
     Inr \<lparr>From = ''A'', BenchId = ''bench-1'', TraceId = ''42'', Depth = 1\<rparr> \<and>
   requests (snd (snd (Process (world_of leaf_answer) no_deadline req0 (leaf_A, [])))) = [] \<and>
   sint (Depth req0 + 1) = 1"
proof -
  have l: "outServices leaf_A = []" by (simp add: leaf_A_def NewService_def)
  have d: "sint (Depth req0) < 2147483647" by (simp add: req0_def)
  from leaf_reply [OF l, of "world_of leaf_answer" no_deadline req0 "[]"] obtain evs where
    e: "Process (world_of leaf_answer) no_deadline req0 (leaf_A, []) =
         (Inr \<lparr>From = name leaf_A, BenchId = BenchId req0, TraceId = TraceId req0,
               Depth = Depth req0 + 1\<rparr>, leaf_A, [] @ evs)"
       "requests evs = []"
       "sint (Depth req0) < 2147483647 \<longrightarrow> sint (Depth req0 + 1) = sint (Depth req0) + 1"
    by blast
  from e(3) d have "sint (Depth req0 + 1) = 1" by (simp add: req0_def)
  with l d e(1) e(2) show ?thesis by (simp add: leaf_A_def NewService_def req0_def)
qed

text \<open>
  C3. A node with at least one peer returns, for every input and every environment, a
  message whose origin is the node's name, whose benchId and traceId are the input's,
  and whose depth is 0, whatever depths the downstream replies carry.
\<close>

theorem branch_reply:
  assumes "outServices s \<noteq> []"
  shows "fst (Process w ctx req (s, h)) =
           Inr \<lparr>From = name s, BenchId = BenchId req, TraceId = TraceId req, Depth = 0\<rparr>"
  using assms by (simp add: Process_reply)

theorem branch_reply_witness:
  "outServices node_A \<noteq> [] \<and>
   map Depth (replies (snd (snd (Process (world_of odd_answer) no_deadline req0 (node_A, []))))) = [7, 7] \<and>
   fst (Process (world_of odd_answer) no_deadline req0 (node_A, [])) =
     Inr \<lparr>From = ''A'', BenchId = ''bench-1'', TraceId = ''42'', Depth = 0\<rparr>"
proof -
  have n: "outServices node_A \<noteq> []" by (simp add: node_A_def NewService_def)
  have r: "map Depth (replies (snd (snd (Process (world_of odd_answer) no_deadline req0 (node_A, []))))) = [7, 7]"
    by (simp add: run_defs world_of_def odd_answer_def node_A_def req0_def no_deadline_def
        replies_def)
  from branch_reply [OF n, of "world_of odd_answer" no_deadline req0 "[]"] n r
  show ?thesis by (simp add: node_A_def NewService_def req0_def)
qed

text \<open>
  C4. \<^verbatim>\<open>Process\<close> always returns a reply and never an error, for every input and
  every outcome of the channel constructions and remote calls, and the reply is fixed by
  the node and the input alone. Whatever fails, every configured peer is tried, as often
  as it is configured: its task is started, and it ends in a remote call or in a failed
  construction of its channel; every remote call carries the request of this hop. Every
  failed construction and every failed remote call is logged, once each, and nothing
  else is; every non-nil reply is recorded by a \<^verbatim>\<open>req_resp\<close> trace. All of this is said
  of multisets, so it holds in whatever order the tasks run and send.
\<close>

theorem Process_never_fails:
  "\<exists>s' evs. Process w ctx req (s, h) =
      (Inr \<lparr>From = name s, BenchId = BenchId req, TraceId = TraceId req,
            Depth = (if outServices s = [] then Depth req + 1 else 0)\<rparr>,
       s', h @ evs)
     \<and> mset (attempted evs) = mset (outServices s)
     \<and> set (requests evs) \<subseteq> {\<lparr>From = name s, BenchId = BenchId req, TraceId = TraceId req,
           Depth = Depth req + 1\<rparr>}
     \<and> mset (logged evs) = mset (failures evs)
     \<and> mset (map log_RelatedService (traced ''req_start'' evs)) = mset (outServices s)
     \<and> mset (map ids_of_trace (traced ''req_resp'' evs))
         = mset (map ids_of_message (replies evs))"
proof -
  from Process_effect [of w ctx req s h] obtain s' evs where
    e: "Process w ctx req (s, h) =
      (Inr \<lparr>From = name s, BenchId = BenchId req, TraceId = TraceId req,
            Depth = (if outServices s = [] then Depth req + 1 else 0)\<rparr>,
       s', h @ evs)"
     "set (requests evs) \<subseteq> {\<lparr>From = name s, BenchId = BenchId req, TraceId = TraceId req,
           Depth = Depth req + 1\<rparr>}"
     "logged evs = failures evs"
     "map log_RelatedService (traced ''req_start'' evs) = outServices s"
     "map ids_of_trace (traced ''req_resp'' evs) = map ids_of_message (replies evs)"
     "attempted evs = outServices s"
    by blast
  have "mset (attempted evs) = mset (outServices s)" using e(6) by simp
  moreover have "mset (logged evs) = mset (failures evs)" using e(3) by simp
  moreover have "mset (map log_RelatedService (traced ''req_start'' evs)) = mset (outServices s)"
    using e(4) by simp
  moreover have "mset (map ids_of_trace (traced ''req_resp'' evs))
         = mset (map ids_of_message (replies evs))"
    using e(5) by simp
  ultimately show ?thesis using e(1) e(2) by blast
qed

theorem Process_never_fails_witness:
  "fst (Process mixed_world no_deadline req0 (node_A, [])) =
     Inr \<lparr>From = ''A'', BenchId = ''bench-1'', TraceId = ''42'', Depth = 0\<rparr> \<and>
   attempted (snd (snd (Process mixed_world no_deadline req0 (node_A, [])))) =
     [''B'', ''C''] \<and>
   requests (snd (snd (Process mixed_world no_deadline req0 (node_A, [])))) =
     [\<lparr>From = ''A'', BenchId = ''bench-1'', TraceId = ''42'', Depth = 1\<rparr>,
      \<lparr>From = ''A'', BenchId = ''bench-1'', TraceId = ''42'', Depth = 1\<rparr>] \<and>
   failures (snd (snd (Process mixed_world no_deadline req0 (node_A, [])))) =
     [''rpc error: code = DeadlineExceeded desc = context deadline exceeded''] \<and>
   replies (snd (snd (Process mixed_world no_deadline req0 (node_A, [])))) =
     [\<lparr>From = ''C'', BenchId = ''bench-1'', TraceId = ''42'', Depth = 2\<rparr>] \<and>
   mset (logged (snd (snd (Process mixed_world no_deadline req0 (node_A, []))))) =
     mset (failures (snd (snd (Process mixed_world no_deadline req0 (node_A, []))))) \<and>
   mset (map ids_of_trace
     (traced ''req_resp'' (snd (snd (Process mixed_world no_deadline req0 (node_A, []))))))
     = mset (map ids_of_message
         (replies (snd (snd (Process mixed_world no_deadline req0 (node_A, []))))))"
proof -
  from Process_never_fails [of mixed_world no_deadline req0 node_A "[]"]
  obtain s' evs where
    e: "Process mixed_world no_deadline req0 (node_A, []) =
      (Inr \<lparr>From = name node_A, BenchId = BenchId req0, TraceId = TraceId req0,
            Depth = (if outServices node_A = [] then Depth req0 + 1 else 0)\<rparr>,
       s', [] @ evs)"
     "mset (logged evs) = mset (failures evs)"
     "mset (map ids_of_trace (traced ''req_resp'' evs))
         = mset (map ids_of_message (replies evs))"
    by blast
  have a: "attempted (snd (snd (Process mixed_world no_deadline req0 (node_A, [])))) =
     [''B'', ''C'']"
    by (simp add: run_defs mixed_world_def deadline_exceeded_def node_A_def req0_def
        no_deadline_def attempted_def requests_def)
  have q: "requests (snd (snd (Process mixed_world no_deadline req0 (node_A, [])))) =
     [\<lparr>From = ''A'', BenchId = ''bench-1'', TraceId = ''42'', Depth = 1\<rparr>,
      \<lparr>From = ''A'', BenchId = ''bench-1'', TraceId = ''42'', Depth = 1\<rparr>]"
    by (simp add: run_defs mixed_world_def deadline_exceeded_def node_A_def req0_def
        no_deadline_def requests_def)
  have f: "failures (snd (snd (Process mixed_world no_deadline req0 (node_A, [])))) =
     [''rpc error: code = DeadlineExceeded desc = context deadline exceeded'']"
    by (simp add: run_defs mixed_world_def deadline_exceeded_def node_A_def req0_def
        no_deadline_def failures_def requests_def)
  have r: "replies (snd (snd (Process mixed_world no_deadline req0 (node_A, [])))) =
     [\<lparr>From = ''C'', BenchId = ''bench-1'', TraceId = ''42'', Depth = 2\<rparr>]"
    by (simp add: run_defs mixed_world_def deadline_exceeded_def node_A_def req0_def
        no_deadline_def replies_def requests_def)
  have v: "fst (Process mixed_world no_deadline req0 (node_A, [])) =
     Inr \<lparr>From = ''A'', BenchId = ''bench-1'', TraceId = ''42'', Depth = 0\<rparr>"
    using e(1) by (simp add: node_A_def NewService_def req0_def)
  from e have m: "mset (logged (snd (snd (Process mixed_world no_deadline req0 (node_A, []))))) =
     mset (failures (snd (snd (Process mixed_world no_deadline req0 (node_A, [])))))"
    "mset (map ids_of_trace
     (traced ''req_resp'' (snd (snd (Process mixed_world no_deadline req0 (node_A, []))))))
     = mset (map ids_of_message
         (replies (snd (snd (Process mixed_world no_deadline req0 (node_A, []))))))"
    by simp_all
  from v a q f r m show ?thesis by blast
qed

text \<open>
  C5. In the call tree of a root request, every request that a node issues downstream
  carries the root's benchId and traceId, and so does every reply that a node returns,
  at a leaf and at a node with peers alike.
\<close>

theorem ids_threaded:
  assumes "in_call_tree root req"
  shows "(\<forall>m \<in> set (requests (new_events h (snd (snd (Process w ctx req (s, h)))))).
            BenchId m = BenchId root \<and> TraceId m = TraceId root)
       \<and> (\<exists>reply. fst (Process w ctx req (s, h)) = Inr reply
            \<and> BenchId reply = BenchId root \<and> TraceId reply = TraceId root)"
proof -
  from in_call_tree_ids [OF assms]
  have ids: "BenchId req = BenchId root" "TraceId req = TraceId root" by simp_all
  have "\<forall>m \<in> set (requests (new_events h (snd (snd (Process w ctx req (s, h)))))).
            BenchId m = BenchId root \<and> TraceId m = TraceId root"
  proof
    fix m assume "m \<in> set (requests (new_events h (snd (snd (Process w ctx req (s, h))))))"
    from Process_requests [OF this] ids
    show "BenchId m = BenchId root \<and> TraceId m = TraceId root" by simp
  qed
  moreover have "\<exists>reply. fst (Process w ctx req (s, h)) = Inr reply
            \<and> BenchId reply = BenchId root \<and> TraceId reply = TraceId root"
    using ids by (simp add: Process_reply)
  ultimately show ?thesis by blast
qed

theorem ids_threaded_witness:
  "in_call_tree req0 hop1 \<and>
   requests (new_events [] (snd (snd (Process (world_of leaf_answer) no_deadline hop1 (node_B, [])))))
     = [\<lparr>From = ''B'', BenchId = ''bench-1'', TraceId = ''42'', Depth = 2\<rparr>] \<and>
   fst (Process (world_of leaf_answer) no_deadline hop1 (node_B, [])) =
     Inr \<lparr>From = ''B'', BenchId = ''bench-1'', TraceId = ''42'', Depth = 0\<rparr> \<and>
   BenchId req0 = ''bench-1'' \<and> TraceId req0 = ''42''"
proof -
  have m: "hop1 \<in> set (requests (new_events []
      (snd (snd (Process (world_of leaf_answer) no_deadline req0 (node_A, []))))))"
    by (simp add: run_defs world_of_def leaf_answer_def node_A_def node_B_def hop1_def
        req0_def no_deadline_def requests_def)
  have tree: "in_call_tree req0 hop1"
    by (rule at_hop [OF at_root m])
  have rq: "requests (new_events [] (snd (snd (Process (world_of leaf_answer) no_deadline hop1 (node_B, [])))))
     = [\<lparr>From = ''B'', BenchId = ''bench-1'', TraceId = ''42'', Depth = 2\<rparr>]"
    by (simp add: run_defs world_of_def leaf_answer_def node_A_def node_B_def hop1_def
        req0_def no_deadline_def requests_def)
  from ids_threaded [OF tree, of "[]" "world_of leaf_answer" no_deadline node_B]
  obtain reply where "fst (Process (world_of leaf_answer) no_deadline hop1 (node_B, [])) = Inr reply"
    "BenchId reply = BenchId req0" "TraceId reply = TraceId req0"
    by blast
  moreover have "fst (Process (world_of leaf_answer) no_deadline hop1 (node_B, [])) =
     Inr \<lparr>From = ''B'', BenchId = ''bench-1'', TraceId = ''42'', Depth = 0\<rparr>"
    by (simp add: Process_reply node_B_def NewService_def hop1_def)
  ultimately show ?thesis using tree rq by (simp add: req0_def)
qed

text \<open>
  C6, as stated, fails: for an input of depth 0 the leaf of name \<open>A\<close> replies with
  depth 1, and the node of the same name with two peers whose calls both fail replies
  with depth 0.
\<close>

theorem leaf_and_failed_branch_counterexample:
  "fst (Process (world_of deadline_exceeded) no_deadline req0 (leaf_A, []))
     \<noteq> fst (Process (world_of deadline_exceeded) no_deadline req0 (node_A, []))
   \<and> fst (Process (world_of deadline_exceeded) no_deadline req0 (leaf_A, []))
       = Inr \<lparr>From = ''A'', BenchId = ''bench-1'', TraceId = ''42'', Depth = 1\<rparr>
   \<and> fst (Process (world_of deadline_exceeded) no_deadline req0 (node_A, []))
       = Inr \<lparr>From = ''A'', BenchId = ''bench-1'', TraceId = ''42'', Depth = 0\<rparr>
   \<and> outServices leaf_A = [] \<and> outServices node_A = [''B'', ''C'']
   \<and> length (failures (snd (snd (Process (world_of deadline_exceeded) no_deadline req0 (node_A, []))))) = 2
   \<and> replies (snd (snd (Process (world_of deadline_exceeded) no_deadline req0 (node_A, [])))) = []"
  by (simp add: run_defs world_of_def deadline_exceeded_def leaf_A_def node_A_def req0_def
      no_deadline_def failures_def replies_def)

text \<open>
  C6, amended. The reply of a node with no peers and the reply of a node of the same
  name with peers all of whose downstream calls failed agree in origin, benchId and
  traceId. Their depths are the input's depth plus one and 0, so the two replies are
  equal exactly when the input's depth is -1.
\<close>

theorem leaf_and_failed_branch_replies:
  assumes "outServices s1 = []" and "outServices s2 \<noteq> []" and "name s2 = name s1"
    and "length (failures (new_events h2 (snd (snd (Process w2 ctx2 req (s2, h2))))))
           = length (outServices s2)"
  shows "\<exists>r1 r2. fst (Process w1 ctx1 req (s1, h1)) = Inr r1
       \<and> fst (Process w2 ctx2 req (s2, h2)) = Inr r2
       \<and> From r1 = From r2 \<and> BenchId r1 = BenchId r2 \<and> TraceId r1 = TraceId r2
       \<and> Depth r1 = Depth req + 1 \<and> Depth r2 = 0
       \<and> (r1 = r2 \<longleftrightarrow> Depth req = - 1)"
proof -
  have eq: "(Depth req + 1 = 0) = (Depth req = - 1)"
    by (simp add: eq_neg_iff_add_eq_0)
  show ?thesis
    using assms(1,2,3) eq by (simp add: Process_reply)
qed

theorem leaf_and_failed_branch_replies_witness:
  "outServices leaf_A = [] \<and> outServices node_A \<noteq> [] \<and> name node_A = name leaf_A \<and>
   length (failures (new_events [] (snd (snd
      (Process (world_of deadline_exceeded) no_deadline hop1 (node_A, []))))))
     = length (outServices node_A) \<and>
   fst (Process (world_of leaf_answer) no_deadline hop1 (leaf_A, [])) =
     Inr \<lparr>From = ''A'', BenchId = ''bench-1'', TraceId = ''42'', Depth = 2\<rparr> \<and>
   fst (Process (world_of deadline_exceeded) no_deadline hop1 (node_A, [])) =
     Inr \<lparr>From = ''A'', BenchId = ''bench-1'', TraceId = ''42'', Depth = 0\<rparr> \<and>
   Depth hop1 \<noteq> - 1"
proof -
  have a: "outServices leaf_A = []" by (simp add: leaf_A_def NewService_def)
  have b: "outServices node_A \<noteq> []" by (simp add: node_A_def NewService_def)
  have c: "name node_A = name leaf_A" by (simp add: node_A_def leaf_A_def NewService_def)
  have d: "length (failures (new_events [] (snd (snd
      (Process (world_of deadline_exceeded) no_deadline hop1 (node_A, []))))))
     = length (outServices node_A)"
    by (simp add: run_defs world_of_def deadline_exceeded_def node_A_def hop1_def
        no_deadline_def failures_def)
  from leaf_and_failed_branch_replies [OF a b c d, of "world_of leaf_answer" no_deadline "[]"]
  obtain r1 r2 where
    r: "fst (Process (world_of leaf_answer) no_deadline hop1 (leaf_A, [])) = Inr r1"
       "fst (Process (world_of deadline_exceeded) no_deadline hop1 (node_A, [])) = Inr r2"
       "From r1 = From r2" "BenchId r1 = BenchId r2" "TraceId r1 = TraceId r2"
       "Depth r1 = Depth hop1 + 1" "Depth r2 = 0" "(r1 = r2) = (Depth hop1 = - 1)"
    by blast
  have v: "fst (Process (world_of leaf_answer) no_deadline hop1 (leaf_A, [])) =
     Inr \<lparr>From = ''A'', BenchId = ''bench-1'', TraceId = ''42'', Depth = 2\<rparr>"
    "fst (Process (world_of deadline_exceeded) no_deadline hop1 (node_A, [])) =
     Inr \<lparr>From = ''A'', BenchId = ''bench-1'', TraceId = ''42'', Depth = 0\<rparr>"
    by (simp_all add: Process_reply leaf_A_def node_A_def NewService_def hop1_def)
  from r v have "Depth hop1 \<noteq> - 1" by auto
  with a b c d v show ?thesis by blast
qed

text \<open>
  C7. Under every schedule of the registry's critical sections, from every state: for
  each peer at most one channel is constructed, and none when the pool already holds
  one; all successful lookups of one peer return the same handle, which is the pool's
  entry at the end; and an entry of the pool stays as it is.
\<close>

theorem registry_single_channel:
  assumes "run_sections w sched (s, h) = (rs, s', h')"
  shows "length (constructed n (new_events h h')) \<le> (if connPool s n = None then 1 else 0)
       \<and> ((n, Inr c1) \<in> set rs \<longrightarrow> (n, Inr c2) \<in> set rs \<longrightarrow> c1 = c2)
       \<and> ((n, Inr c1) \<in> set rs \<longrightarrow> connPool s' n = Some c1)
       \<and> (connPool s n = Some c \<longrightarrow> connPool s' n = Some c)"
proof -
  from run_sections_effect [OF assms] obtain evs where e:
    "h' = h @ evs" "same_config s s'"
    "\<forall>m c. connPool s m = Some c \<longrightarrow> connPool s' m = Some c"
    "\<forall>n c. (n, Inr c) \<in> set rs \<longrightarrow> connPool s' n = Some c"
    "\<forall>m. constructed m evs = gained s s' m"
    by - (erule exE, (erule conjE)+, rule that)
  have "length (constructed n (new_events h h')) \<le> (if connPool s n = None then 1 else 0)"
    using e(1) e(5) by (auto simp: new_events_append gained_def split: option.splits)
  moreover have "(n, Inr c1) \<in> set rs \<longrightarrow> (n, Inr c2) \<in> set rs \<longrightarrow> c1 = c2"
  proof (intro impI)
    assume "(n, Inr c1) \<in> set rs" and "(n, Inr c2) \<in> set rs"
    with e(4) have "connPool s' n = Some c1" and "connPool s' n = Some c2"
      by blast+
    then show "c1 = c2" by simp
  qed
  ultimately show ?thesis using e(3) e(4) by blast
qed

theorem registry_single_channel_witness:
  "run_sections flaky_world
     [RLocked ''B'', RLocked ''B'', Locked ''B'', Locked ''B'', Locked ''B'', RLocked ''B'']
     (node_A, []) =
     ([(''B'', Inl ''failed to connect to B: bad target''), (''B'', Inr 1), (''B'', Inr 1),
       (''B'', Inr 1)],
      node_A\<lparr>connPool := [''B'' \<mapsto> 1]\<rparr>,
      [NewClient ''B:50051'' (Inl ''bad target''), NewClient ''B:50051'' (Inr 1)]) \<and>
   connPool node_A ''B'' = None \<and>
   length (constructed ''B'' (new_events []
      [NewClient ''B:50051'' (Inl ''bad target''), NewClient ''B:50051'' (Inr 1)])) \<le> 1"
proof -
  have run: "run_sections flaky_world
     [RLocked ''B'', RLocked ''B'', Locked ''B'', Locked ''B'', Locked ''B'', RLocked ''B'']
     (node_A, []) =
     ([(''B'', Inl ''failed to connect to B: bad target''), (''B'', Inr 1), (''B'', Inr 1),
       (''B'', Inr 1)],
      node_A\<lparr>connPool := [''B'' \<mapsto> 1]\<rparr>,
      [NewClient ''B:50051'' (Inl ''bad target''), NewClient ''B:50051'' (Inr 1)])"
    by (simp add: run_defs flaky_world_def node_A_def dialled_def)
  have none: "connPool node_A ''B'' = None" by (simp add: node_A_def NewService_def)
  from registry_single_channel [OF run, of "''B''" 1 1 1] none
  show ?thesis using run by simp
qed

text \<open>
  C8. When the pool has no entry for a peer and \<^verbatim>\<open>grpc.NewClient\<close> fails,
  \<^verbatim>\<open>getConnection\<close> returns the error and leaves the service, the pool with it, as it
  was. The next call for the same peer calls \<^verbatim>\<open>grpc.NewClient\<close> on the same target
  once more, and returns the channel if that construction succeeds.
\<close>

theorem failed_construction_not_cached:
  assumes "connPool s n = None" and "grpcNewClient w h (n @ '':50051'') = Inl err"
  shows "getConnection w n (s, h) =
           (Inl (''failed to connect to '' @ n @ '': '' @ err), s,
            h @ [NewClient (n @ '':50051'') (Inl err)])
       \<and> dialled (new_events (snd (snd (getConnection w n (s, h))))
            (snd (snd (getConnection w n (snd (getConnection w n (s, h)))))))
           = [n @ '':50051'']
       \<and> (\<forall>c. grpcNewClient w (h @ [NewClient (n @ '':50051'') (Inl err)]) (n @ '':50051'') = Inr c
            \<longrightarrow> fst (getConnection w n (snd (getConnection w n (s, h)))) = Inr c)"
proof -
  have first: "getConnection w n (s, h) =
           (Inl (''failed to connect to '' @ n @ '': '' @ err), s,
            h @ [NewClient (n @ '':50051'') (Inl err)])"
    using assms
    by (simp add: getConnection_def getConnection_rlocked_def getConnection_locked_def)
  let ?h1 = "h @ [NewClient (n @ '':50051'') (Inl err)]"
  have second: "dialled (new_events ?h1 (snd (snd (getConnection w n (s, ?h1))))) = [n @ '':50051'']"
    using assms(1)
    by (simp add: getConnection_def getConnection_rlocked_def getConnection_locked_def Let_def
        new_events_def dialled_def split: sum.splits)
  have third: "\<forall>c. grpcNewClient w ?h1 (n @ '':50051'') = Inr c
            \<longrightarrow> fst (getConnection w n (s, ?h1)) = Inr c"
    using assms(1)
    by (simp add: getConnection_def getConnection_rlocked_def getConnection_locked_def Let_def)
  from first second third show ?thesis by simp
qed

theorem failed_construction_not_cached_witness:
  "connPool node_A ''B'' = None \<and>
   grpcNewClient flaky_world [] (''B'' @ '':50051'') = Inl ''bad target'' \<and>
   getConnection flaky_world ''B'' (node_A, []) =
     (Inl ''failed to connect to B: bad target'', node_A,
      [NewClient ''B:50051'' (Inl ''bad target'')]) \<and>
   getConnection flaky_world ''B'' (node_A, [NewClient ''B:50051'' (Inl ''bad target'')]) =
     (Inr 1, node_A\<lparr>connPool := [''B'' \<mapsto> 1]\<rparr>,
      [NewClient ''B:50051'' (Inl ''bad target''), NewClient ''B:50051'' (Inr 1)])"
proof -
  have none: "connPool node_A ''B'' = None" by (simp add: node_A_def NewService_def)
  have bad: "grpcNewClient flaky_world [] (''B'' @ '':50051'') = Inl ''bad target''"
    by (simp add: flaky_world_def dialled_def)
  have again: "getConnection flaky_world ''B'' (node_A, [NewClient ''B:50051'' (Inl ''bad target'')]) =
     (Inr 1, node_A\<lparr>connPool := [''B'' \<mapsto> 1]\<rparr>,
      [NewClient ''B:50051'' (Inl ''bad target''), NewClient ''B:50051'' (Inr 1)])"
    by (simp add: run_defs flaky_world_def node_A_def dialled_def)
  from failed_construction_not_cached [OF none bad] none bad again
  show ?thesis by simp
qed

text \<open>
  C9. The peer list is the split of the \<^verbatim>\<open>-out\<close> flag at its commas when the split
  has more than one piece, and empty otherwise. So an empty flag gives no peer, and a
  flag without a comma, which names one service, gives no peer either: the node makes no
  connection at startup and answers every request as a leaf. A flag with a comma gives
  the pieces of the split.
\<close>

theorem single_out_service_is_leaf:
  assumes "OutServices config = processedOutServices outFlag"
  shows "processedOutServices outFlag =
           (if length (strings_Split outFlag CHR '','') > 1
            then strings_Split outFlag CHR '','' else [])
       \<and> processedOutServices [] = []
       \<and> (CHR '','' \<notin> set outFlag \<longrightarrow>
            strings_Split outFlag CHR '','' = [outFlag]
            \<and> processedOutServices outFlag = []
            \<and> outServices (NewService config) = []
            \<and> Preconnect w (NewService config, h) = (NewService config, h)
            \<and> (\<exists>evs. Process w ctx req (NewService config, h) =
                 (Inr \<lparr>From = Name config, BenchId = BenchId req, TraceId = TraceId req,
                       Depth = Depth req + 1\<rparr>, NewService config, h @ evs)
                 \<and> requests evs = [] \<and> dialled evs = []))
       \<and> (CHR '','' \<in> set outFlag \<longrightarrow> processedOutServices outFlag = strings_Split outFlag CHR '','' \<and> processedOutServices outFlag \<noteq> [])"
proof -
  have a: "processedOutServices outFlag =
           (if length (strings_Split outFlag CHR '','') > 1
            then strings_Split outFlag CHR '','' else [])"
    by (simp add: processedOutServices_def Let_def)
  have b: "processedOutServices [] = []"
    by (simp add: processedOutServices_def)
  have c: "CHR '','' \<notin> set outFlag \<longrightarrow>
            strings_Split outFlag CHR '','' = [outFlag]
            \<and> processedOutServices outFlag = []
            \<and> outServices (NewService config) = []
            \<and> Preconnect w (NewService config, h) = (NewService config, h)
            \<and> (\<exists>evs. Process w ctx req (NewService config, h) =
                 (Inr \<lparr>From = Name config, BenchId = BenchId req, TraceId = TraceId req,
                       Depth = Depth req + 1\<rparr>, NewService config, h @ evs)
                 \<and> requests evs = [] \<and> dialled evs = [])"
  proof
    assume no: "CHR '','' \<notin> set outFlag"
    then have p: "processedOutServices outFlag = []"
      by (simp add: processedOutServices_empty_iff)
    with assms have o: "outServices (NewService config) = []"
      by (simp add: NewService_def)
    have nm: "name (NewService config) = Name config" by (simp add: NewService_def)
    from Process_leaf [OF o, of w ctx req h] obtain evs where
      e: "Process w ctx req (NewService config, h) =
        (Inr \<lparr>From = name (NewService config), BenchId = BenchId req, TraceId = TraceId req,
              Depth = Depth req + 1\<rparr>, NewService config, h @ evs)" "quiet evs"
      by blast
    from e(2) have q: "requests evs = []" "dialled evs = []" by (simp_all add: quiet_def)
    have pre: "Preconnect w (NewService config, h) = (NewService config, h)"
      using o by (simp add: Preconnect_def)
    from no p o pre e(1) q nm show "strings_Split outFlag CHR '','' = [outFlag]
            \<and> processedOutServices outFlag = []
            \<and> outServices (NewService config) = []
            \<and> Preconnect w (NewService config, h) = (NewService config, h)
            \<and> (\<exists>evs. Process w ctx req (NewService config, h) =
                 (Inr \<lparr>From = Name config, BenchId = BenchId req, TraceId = TraceId req,
                       Depth = Depth req + 1\<rparr>, NewService config, h @ evs)
                 \<and> requests evs = [] \<and> dialled evs = [])"
      by (simp add: strings_Split_no_sep)
  qed
  have d: "CHR '','' \<in> set outFlag \<longrightarrow> processedOutServices outFlag = strings_Split outFlag CHR '','' \<and> processedOutServices outFlag \<noteq> []"
    using processedOutServices_empty_iff [of outFlag] a by auto
  from a b c d show ?thesis by blast
qed

theorem single_out_service_is_leaf_witness:
  "OutServices config_B = processedOutServices ''B'' \<and>
   CHR '','' \<notin> set ''B'' \<and>
   processedOutServices ''B'' = [] \<and>
   processedOutServices ''B,C'' = [''B'', ''C''] \<and>
   outServices (NewService config_B) = [] \<and>
   fst (Process (world_of leaf_answer) no_deadline req0 (NewService config_B, [])) =
     Inr \<lparr>From = ''A'', BenchId = ''bench-1'', TraceId = ''42'', Depth = 1\<rparr> \<and>
   requests (snd (snd (Process (world_of leaf_answer) no_deadline req0 (NewService config_B, [])))) = []"
proof -
  have c: "OutServices config_B = processedOutServices ''B''" by (simp add: config_B_def)
  have n: "CHR '','' \<notin> set ''B''" by simp
  have two: "processedOutServices ''B,C'' = [''B'', ''C'']"
    by (simp add: processedOutServices_def)
  from single_out_service_is_leaf [OF c, of "world_of leaf_answer" "[]" no_deadline req0] n
  obtain evs where
    e: "processedOutServices ''B'' = []" "outServices (NewService config_B) = []"
       "Process (world_of leaf_answer) no_deadline req0 (NewService config_B, []) =
          (Inr \<lparr>From = Name config_B, BenchId = BenchId req0, TraceId = TraceId req0,
                Depth = Depth req0 + 1\<rparr>, NewService config_B, [] @ evs)"
       "requests evs = []"
    by blast
  from c n two e show ?thesis by (simp add: config_B_def req0_def)
qed

text \<open>
  C10. For a node with at least one peer, the message that \<^verbatim>\<open>Process\<close> returns does
  not depend on the downstream replies: two runs on the same input, in any two
  environments, contexts, histories and pools, return the same message.
\<close>

theorem reply_independent_of_responses:
  assumes "outServices s \<noteq> []"
  shows "fst (Process w1 ctx1 req (s, h1)) = fst (Process w2 ctx2 req (s\<lparr>connPool := p\<rparr>, h2))"
  using assms by (simp add: Process_reply)

theorem reply_independent_of_responses_witness:
  "outServices node_A \<noteq> [] \<and>
   replies (snd (snd (Process (world_of leaf_answer) no_deadline req0 (node_A, [])))) \<noteq>
   replies (snd (snd (Process (world_of odd_answer) no_deadline req0 (node_A, [])))) \<and>
   fst (Process (world_of leaf_answer) no_deadline req0 (node_A, [])) =
   fst (Process (world_of odd_answer) no_deadline req0 (node_A, []))"
proof -
  have n: "outServices node_A \<noteq> []" by (simp add: node_A_def NewService_def)
  have r: "replies (snd (snd (Process (world_of leaf_answer) no_deadline req0 (node_A, [])))) \<noteq>
   replies (snd (snd (Process (world_of odd_answer) no_deadline req0 (node_A, []))))"
    by (simp add: run_defs world_of_def leaf_answer_def odd_answer_def node_A_def req0_def
        no_deadline_def replies_def)
  from reply_independent_of_responses [OF n, of "world_of leaf_answer" no_deadline req0 "[]"
      "world_of odd_answer" no_deadline "connPool node_A" "[]"]
  have "fst (Process (world_of leaf_answer) no_deadline req0 (node_A, [])) =
   fst (Process (world_of odd_answer) no_deadline req0 (node_A, []))"
    by simp
  with n r show ?thesis by blast
qed

end
